theory Spec2Isabelle
  imports Main "HOL-Library.AList" "HOL-Library.Char_ord" "HOL-Library.List_Lexorder"
    "HOL-Library.Multiset"
begin

section \<open>Results of an RPC handler\<close>

text \<open>
  A handler of \<^verbatim>\<open>emulator.go\<close> returns either a value or a gRPC status
  (\<^verbatim>\<open>status.Errorf(codes.X, ...)\<close>). A Go runtime panic (nil pointer dereference,
  slice bounds out of range) is neither: grpc-go does not recover it and the process
  dies. It is a value of its own here, so that a panic is never mistaken for a status.
\<close>

datatype code = NotFound | InvalidArgument | AlreadyExists | FailedPrecondition | Unimplemented

datatype failure = Status code | Panic

type_synonym addr = nat

section \<open>Strings: \<^verbatim>\<open>strings.HasPrefix\<close>, \<^verbatim>\<open>strconv.Atoi\<close>, \<^verbatim>\<open>strconv.Itoa\<close>, \<^verbatim>\<open>regexp.MatchString\<close>\<close>

definition HasPrefix :: "string \<Rightarrow> string \<Rightarrow> bool" where
  "HasPrefix s p = (take (length p) s = p)"

definition is_digit :: "char \<Rightarrow> bool" where
  "is_digit c = (CHR ''0'' \<le> c \<and> c \<le> CHR ''9'')"

definition digit_val :: "char \<Rightarrow> int" where
  "digit_val c = int (of_char c) - 48"

text \<open>The loop \<^verbatim>\<open>n = n*10 + int(ch - '0')\<close> of \<^verbatim>\<open>strconv\<close>, with its accumulator.\<close>

fun digits_value :: "int \<Rightarrow> string \<Rightarrow> int" where
  "digits_value n [] = n"
| "digits_value n (c # cs) = digits_value (n * 10 + digit_val c) cs"

text \<open>
  \<^verbatim>\<open>strconv.Atoi\<close> on a 64-bit platform: an optional sign, then at least one ASCII
  digit and nothing else; a value outside the range of \<^verbatim>\<open>int\<close> is an error as well.
  \<open>None\<close> stands for \<^verbatim>\<open>err != nil\<close>.
\<close>

definition Atoi :: "string \<Rightarrow> int option" where
  "Atoi s =
     (case s of
        [] \<Rightarrow> None
      | c # r \<Rightarrow>
          (let neg = (c = CHR ''-'');
               ds = (if c = CHR ''-'' \<or> c = CHR ''+'' then r else s)
           in if ds = [] \<or> \<not> list_all is_digit ds then None
              else (let v = (if neg then - digits_value 0 ds else digits_value 0 ds)
                    in if v < - (2 ^ 63) \<or> 2 ^ 63 - 1 < v then None else Some v)))"

definition digit_char :: "nat \<Rightarrow> char" where
  "digit_char d = ''0123456789'' ! d"

text \<open>\<^verbatim>\<open>strconv.Itoa\<close>: decimal, no leading zero, \<^verbatim>\<open>-\<close> in front of a negative number.\<close>

fun nat_digits :: "nat \<Rightarrow> string" where
  "nat_digits n = (if n < 10 then [digit_char n] else nat_digits (n div 10) @ [digit_char (n mod 10)])"

declare nat_digits.simps [simp del]

definition Itoa :: "int \<Rightarrow> string" where
  "Itoa i = (if i < 0 then CHR ''-'' # nat_digits (nat (- i)) else nat_digits (nat i))"

text \<open>
  The fragment of RE2 syntax that the patterns of this repository use: a sequence of
  literal strings and of one-or-more repetitions of a character class, optionally
  anchored at the start (\<^verbatim>\<open>^\<close>) and at the end (\<^verbatim>\<open>$\<close>).
\<close>

datatype item = Lit string | ClassPlus "char \<Rightarrow> bool"

record regex =
  anchor_start :: bool
  items :: "item list"
  anchor_end :: bool

text \<open>\<open>match_here e its s\<close>: some prefix of \<open>s\<close> (all of \<open>s\<close> when \<open>e\<close>) matches \<open>its\<close>.\<close>

fun match_here :: "bool \<Rightarrow> item list \<Rightarrow> string \<Rightarrow> bool" where
  "match_here e [] s = (\<not> e \<or> s = [])"
| "match_here e (Lit l # its) s = (take (length l) s = l \<and> match_here e its (drop (length l) s))"
| "match_here e (ClassPlus C # its) [] = False"
| "match_here e (ClassPlus C # its) (c # cs) =
     (C c \<and> (match_here e its cs \<or> match_here e (ClassPlus C # its) cs))"

fun match_anywhere :: "bool \<Rightarrow> item list \<Rightarrow> string \<Rightarrow> bool" where
  "match_anywhere e its [] = match_here e its []"
| "match_anywhere e its (c # cs) = (match_here e its (c # cs) \<or> match_anywhere e its cs)"

text \<open>\<^verbatim>\<open>regexp.MatchString\<close>: the string \<^emph>\<open>contains\<close> a match of the pattern.\<close>

definition MatchString :: "regex \<Rightarrow> string \<Rightarrow> bool" where
  "MatchString re s =
     (if anchor_start re then match_here (anchor_end re) (items re) s
      else match_anywhere (anchor_end re) (items re) s)"

text \<open>The class \<^verbatim>\<open>[A-Za-z0-9-]\<close>.\<close>

definition id_char :: "char \<Rightarrow> bool" where
  "id_char c = ((CHR ''A'' \<le> c \<and> c \<le> CHR ''Z'') \<or> (CHR ''a'' \<le> c \<and> c \<le> CHR ''z'')
                \<or> (CHR ''0'' \<le> c \<and> c \<le> CHR ''9'') \<or> c = CHR ''-'')"

text \<open>The class \<^verbatim>\<open>[A-Za-z0-9_-]\<close>.\<close>

definition task_id_char :: "char \<Rightarrow> bool" where
  "task_id_char c = (id_char c \<or> c = CHR ''_'')"

text \<open>
  The two patterns of \<^verbatim>\<open>CreateQueue\<close>, as the source writes them: neither has an anchor.
  \<^verbatim>\<open>"projects/[A-Za-z0-9-]+/locations/[A-Za-z0-9-]+/queues/[A-Za-z0-9-]+"\<close> and
  \<^verbatim>\<open>"projects/[A-Za-z0-9-]+/locations/[A-Za-z0-9-]+"\<close>.
\<close>

definition queue_name_regex :: regex where
  "queue_name_regex =
     \<lparr>anchor_start = False,
      items = [Lit ''projects/'', ClassPlus id_char, Lit ''/locations/'', ClassPlus id_char,
               Lit ''/queues/'', ClassPlus id_char],
      anchor_end = False\<rparr>"

definition parent_regex :: regex where
  "parent_regex =
     \<lparr>anchor_start = False,
      items = [Lit ''projects/'', ClassPlus id_char, Lit ''/locations/'', ClassPlus id_char],
      anchor_end = False\<rparr>"

section \<open>Protocol messages (\<^verbatim>\<open>cloudtaskspb\<close>)\<close>

text \<open>Durations and instants are nanoseconds, as \<^verbatim>\<open>time.Duration\<close> counts them.\<close>

datatype Queue_State = STATE_UNSPECIFIED | RUNNING | PAUSED | DISABLED

record RetryConfig =
  MaxAttempts :: int
  MaxRetryDuration :: "int option"
  MinBackoff :: int
  MaxBackoff :: int
  MaxDoublings :: int

record tasks_Queue =
  Queue_Name :: string
  Queue_RetryConfig :: "RetryConfig option"
  State :: Queue_State

record tasks_Task =
  Task_Name :: string
  Url :: string
  ScheduleTime :: "int option"
  DispatchCount :: int
  ResponseCount :: int
  FirstAttempt :: "int option"

text \<open>A request field that holds a message is a pointer, and may be nil.\<close>

record CreateQueueRequest =
  CreateQueue_Parent :: string
  CreateQueue_Queue :: "tasks_Queue option"

record CreateTaskRequest =
  CreateTask_Parent :: string
  CreateTask_Task :: "tasks_Task option"

record ListTasksRequest =
  ListTasks_Parent :: string
  PageSize :: int
  PageToken :: string

text \<open>
  A response carries \<^verbatim>\<open>*tasks.Task\<close> and \<^verbatim>\<open>*tasks.Queue\<close> pointers: addresses into
  the store of messages below, not copies of the messages.
\<close>

record ListTasksResponse =
  Tasks :: "addr list"
  NextPageToken :: string

section \<open>The server and its store\<close>

text \<open>
  \<^verbatim>\<open>Task.state\<close> and \<^verbatim>\<open>Queue.state\<close> are pointers to protocol messages that the
  emulator mutates in place, and the handlers return these pointers. The messages
  therefore live in an explicit store (\<open>task_heap\<close>, \<open>queue_heap\<close>), with
  \<open>next_addr\<close> the next free address. A \<^verbatim>\<open>*Task\<close> is shared by the server's and the
  queue's map; its only field that the handlers read is the pointer \<open>task_state\<close>,
  which never changes, so the struct is held by value in both maps. A \<^verbatim>\<open>*Queue\<close> is
  reachable from \<^verbatim>\<open>Server.qs\<close> only (tasks name their queue), so it is held by
  value there.

  A Go map entry is absent (\<open>None\<close>), present and nil (\<open>Some None\<close>: the tombstone)
  or present and live (\<open>Some (Some x)\<close>). The maps are association lists with
  \<^const>\<open>map_of\<close> as lookup; the order of a list stands for one iteration order of
  \<^verbatim>\<open>range\<close>.
\<close>

record Task =
  task_state :: addr
  task_queue :: string

record Queue =
  queue_name :: string
  queue_state :: addr
  queue_ts :: "(string \<times> Task option) list"

record ServerOptions =
  HardResetOnPurgeQueue :: bool

record Server =
  qs :: "(string \<times> Queue option) list"
  ts :: "(string \<times> Task option) list"
  Options :: ServerOptions
  queue_heap :: "addr \<Rightarrow> tasks_Queue"
  task_heap :: "addr \<Rightarrow> tasks_Task"
  next_addr :: addr

definition zero_Queue :: tasks_Queue where
  "zero_Queue = \<lparr>Queue_Name = [], Queue_RetryConfig = None, State = STATE_UNSPECIFIED\<rparr>"

definition zero_Task :: tasks_Task where
  "zero_Task = \<lparr>Task_Name = [], Url = [], ScheduleTime = None, DispatchCount = 0,
                ResponseCount = 0, FirstAttempt = None\<rparr>"

definition NewServer :: Server where
  "NewServer = \<lparr>qs = [], ts = [], Options = \<lparr>HardResetOnPurgeQueue = False\<rparr>,
                queue_heap = (\<lambda>_. zero_Queue), task_heap = (\<lambda>_. zero_Task), next_addr = 0\<rparr>"

definition setQueue :: "Server \<Rightarrow> string \<Rightarrow> Queue option \<Rightarrow> Server" where
  "setQueue s queueName queue = s\<lparr>qs := AList.update queueName queue (qs s)\<rparr>"

definition fetchQueue :: "Server \<Rightarrow> string \<Rightarrow> Queue option option" where
  "fetchQueue s queueName = map_of (qs s) queueName"

definition removeQueue :: "Server \<Rightarrow> string \<Rightarrow> Server" where
  "removeQueue s queueName = setQueue s queueName None"

definition setTask :: "Server \<Rightarrow> string \<Rightarrow> Task option \<Rightarrow> Server" where
  "setTask s taskName task = s\<lparr>ts := AList.update taskName task (ts s)\<rparr>"

definition fetchTask :: "Server \<Rightarrow> string \<Rightarrow> Task option option" where
  "fetchTask s taskName = map_of (ts s) taskName"

definition removeTask :: "Server \<Rightarrow> string \<Rightarrow> Server" where
  "removeTask s taskName = setTask s taskName None"

definition hardDeleteTask :: "Server \<Rightarrow> string \<Rightarrow> Server" where
  "hardDeleteTask s taskName = s\<lparr>ts := AList.delete taskName (ts s)\<rparr>"

text \<open>\<^verbatim>\<open>proto.Clone\<close>: a new message with the same contents, at a fresh address.\<close>

definition clone_Queue :: "Server \<Rightarrow> tasks_Queue \<Rightarrow> addr \<times> Server" where
  "clone_Queue s m =
     (next_addr s, s\<lparr>queue_heap := (queue_heap s)(next_addr s := m), next_addr := Suc (next_addr s)\<rparr>)"

definition clone_Task :: "Server \<Rightarrow> tasks_Task \<Rightarrow> addr \<times> Server" where
  "clone_Task s m =
     (next_addr s, s\<lparr>task_heap := (task_heap s)(next_addr s := m), next_addr := Suc (next_addr s)\<rparr>)"

text \<open>
  The callback that \<^verbatim>\<open>CreateQueue\<close> hands to \<^verbatim>\<open>NewQueue\<close>:
  \<^verbatim>\<open>func(task *Task) { s.removeTask(task.state.GetName()) }\<close>.
\<close>

definition onTaskDone :: "Server \<Rightarrow> Task \<Rightarrow> Server" where
  "onTaskDone s task = removeTask s (Task_Name (task_heap s (task_state task)))"

text \<open>A method of a live \<^verbatim>\<open>*Queue\<close> that mutates the queue writes through the pointer.\<close>

definition update_queue :: "Server \<Rightarrow> string \<Rightarrow> (Queue \<Rightarrow> Queue) \<Rightarrow> Server" where
  "update_queue s n f =
     (case map_of (qs s) n of
        Some (Some q) \<Rightarrow> s\<lparr>qs := AList.update n (Some (f q)) (qs s)\<rparr>
      | _ \<Rightarrow> s)"

section \<open>Queue and Task: the parts of the package that the handlers call\<close>

text \<open>
  \<^verbatim>\<open>emulator.go\<close> calls \<^verbatim>\<open>NewQueue\<close>, \<^verbatim>\<open>Queue.NewTask\<close>, \<^verbatim>\<open>Queue.Purge\<close>,
  \<^verbatim>\<open>Queue.HardReset\<close>, \<^verbatim>\<open>Queue.Delete\<close>, \<^verbatim>\<open>Queue.Pause\<close>, \<^verbatim>\<open>Queue.Resume\<close>,
  \<^verbatim>\<open>Task.Delete\<close>, \<^verbatim>\<open>Task.Run\<close> and \<^verbatim>\<open>isValidTaskName\<close>, which other files of
  the package define. Each is modelled from the specification, sections 4.1 to 4.4, and
  marked so. Timers, the HTTP call and the interleaving of goroutines are not
  modelled: an operation that the specification calls asynchronous takes effect at once,
  and the outcome of one dispatch is an event of its own (\<open>Dispatch\<close> below).
\<close>

text \<open>
  Modelled from the spec: \<^verbatim>\<open>isValidTaskName\<close> (missing). The name
  "must match \<^verbatim>\<open>^projects/[A-Za-z0-9-]+/locations/[A-Za-z0-9-]+/queues/[A-Za-z0-9-]+/tasks/[A-Za-z0-9_-]+$\<close>".
\<close>

definition task_name_regex :: regex where
  "task_name_regex =
     \<lparr>anchor_start = True,
      items = [Lit ''projects/'', ClassPlus id_char, Lit ''/locations/'', ClassPlus id_char,
               Lit ''/queues/'', ClassPlus id_char, Lit ''/tasks/'', ClassPlus task_id_char],
      anchor_end = True\<rparr>"

definition isValidTaskName :: "string \<Rightarrow> bool" where
  "isValidTaskName name = MatchString task_name_regex name"

definition millisecond :: int where
  "millisecond = 1000000"

definition second :: int where
  "second = 1000 * millisecond"

text \<open>
  Modelled from the spec: the default retry policy that a new queue gets (missing, part
  of \<^verbatim>\<open>NewQueue\<close>): "minBackoff = 100ms, maxBackoff = 3600s, maxDoublings = 16,
  maxAttempts = 100". A policy that the request supplies is kept.
\<close>

definition defaultRetryConfig :: RetryConfig where
  "defaultRetryConfig =
     \<lparr>MaxAttempts = 100, MaxRetryDuration = None, MinBackoff = 100 * millisecond,
      MaxBackoff = 3600 * second, MaxDoublings = 16\<rparr>"

text \<open>
  Modelled from the spec: the initial state of a queue (missing, part of \<^verbatim>\<open>NewQueue\<close>):
  the runtime state starts as RUNNING, with the default policy unless one was supplied.
\<close>

definition setInitialQueueState :: "tasks_Queue \<Rightarrow> tasks_Queue" where
  "setInitialQueueState q =
     q\<lparr>Queue_RetryConfig :=
          (case Queue_RetryConfig q of None \<Rightarrow> Some defaultRetryConfig | Some c \<Rightarrow> Some c),
       State := RUNNING\<rparr>"

text \<open>
  Modelled from the spec: \<^verbatim>\<open>NewQueue\<close> (missing). The queue keeps the message it is
  given as its state, starts RUNNING with no tasks, and the message handed back is a
  clone ("Clone on create").
\<close>

definition NewQueue :: "Server \<Rightarrow> string \<Rightarrow> addr \<Rightarrow> Queue \<times> addr \<times> Server" where
  "NewQueue s name state =
     (let s1 = s\<lparr>queue_heap := (queue_heap s)(state := setInitialQueueState (queue_heap s state))\<rparr>;
          (c, s2) = clone_Queue s1 (queue_heap s1 state)
      in (\<lparr>queue_name = name, queue_state = state, queue_ts = []\<rparr>, c, s2))"

text \<open>
  Modelled from the spec: the removal callback that \<^verbatim>\<open>Queue.NewTask\<close> gives to a task
  (missing): "the callback tombstones the name in the Registry and removes the live
  entry from the Queue's task set". The entry of the queue's own map becomes nil, which
  is the case that the loop of \<^verbatim>\<open>ListTasks\<close> skips; the registry is tombstoned by the
  callback of \<^verbatim>\<open>CreateQueue\<close>, \<^const>\<open>onTaskDone\<close>.
\<close>

definition taskDone :: "Server \<Rightarrow> Task \<Rightarrow> Server" where
  "taskDone s task =
     (let name = Task_Name (task_heap s (task_state task));
          s1 = update_queue s (task_queue task)
                 (\<lambda>q. q\<lparr>queue_ts := AList.update name None (queue_ts q)\<rparr>)
      in onTaskDone s1 task)"

text \<open>
  Modelled from the spec: \<^verbatim>\<open>Task.Delete\<close> (missing): "cancel the pending timer, cancel
  any in-flight dispatch, mark terminal, and invoke the Queue's removal callback
  exactly once".
\<close>

definition Task_Delete :: "Server \<Rightarrow> Task \<Rightarrow> Server" where
  "Task_Delete s task = taskDone s task"

text \<open>
  Modelled from the spec: \<^verbatim>\<open>Task.Run\<close> (missing): "force an immediate dispatch
  regardless of scheduled-time". The dispatch itself is a later \<open>Dispatch\<close> event; the
  state handed back is a clone ("Clone ... on every read-through-RPC").
\<close>

definition Task_Run :: "Server \<Rightarrow> Task \<Rightarrow> addr \<times> Server" where
  "Task_Run s task = clone_Task s (task_heap s (task_state task))"

text \<open>The live entries of a map, in iteration order: \<^verbatim>\<open>for _, x := range m { if x != nil {...} }\<close>.\<close>

fun live :: "('k \<times> 'v option) list \<Rightarrow> 'v list" where
  "live [] = []"
| "live ((k, None) # r) = live r"
| "live ((k, Some v) # r) = v # live r"

text \<open>
  Modelled from the spec: \<^verbatim>\<open>Queue.Purge\<close> (missing): "Snapshots the current live task
  set, then for each Task invokes Delete(). ... The Queue itself remains RUNNING.
  Crucially, tombstones are preserved in the Registry".
\<close>

definition Queue_Purge :: "Server \<Rightarrow> Queue \<Rightarrow> Server" where
  "Queue_Purge s queue = foldl Task_Delete s (live (queue_ts queue))"

text \<open>
  Modelled from the spec: \<^verbatim>\<open>Queue.HardReset\<close> (missing): "Like Purge, but in addition
  it removes tombstones from the Registry so names become immediately reusable. Takes
  the Registry as a collaborator so it can hard-delete task entries." The names are
  those of the queue's task map, live or nil.
\<close>

definition Queue_HardReset :: "Server \<Rightarrow> Queue \<Rightarrow> Server" where
  "Queue_HardReset s queue = foldl hardDeleteTask (Queue_Purge s queue) (map fst (queue_ts queue))"

text \<open>
  Modelled from the spec: \<^verbatim>\<open>Queue.Delete\<close> (missing): "Terminal. Cancels every live
  Task". Leaving the queue's tombstone is the handler's part (\<^verbatim>\<open>s.removeQueue\<close>).
\<close>

definition Queue_Delete :: "Server \<Rightarrow> Queue \<Rightarrow> Server" where
  "Queue_Delete s queue = Queue_Purge s queue"

text \<open>
  Modelled from the spec: \<^verbatim>\<open>Queue.Pause\<close> and \<^verbatim>\<open>Queue.Resume\<close> (missing): "Flips the
  queue state". The state is the field \<^verbatim>\<open>State\<close> of the queue's message, written in
  place.
\<close>

definition Queue_Pause :: "Server \<Rightarrow> Queue \<Rightarrow> Server" where
  "Queue_Pause s queue =
     s\<lparr>queue_heap := (queue_heap s)(queue_state queue := (queue_heap s (queue_state queue))\<lparr>State := PAUSED\<rparr>)\<rparr>"

definition Queue_Resume :: "Server \<Rightarrow> Queue \<Rightarrow> Server" where
  "Queue_Resume s queue =
     s\<lparr>queue_heap := (queue_heap s)(queue_state queue := (queue_heap s (queue_state queue))\<lparr>State := RUNNING\<rparr>)\<rparr>"

text \<open>
  Modelled from the spec: \<^verbatim>\<open>Queue.NewTask\<close> (missing): "If no name supplied, generate
  one: \<^verbatim>\<open><queue>/tasks/<19-random-decimal-digits>\<close>. Initialize scheduledTime to the
  supplied value, or now if absent. Clone the task spec defensively so the returned
  value is frozen with respect to subsequent internal mutation. Install in the Queue's
  task set and start the Task's timer." The random digits \<open>rnd\<close> and the clock \<open>now\<close>
  are arguments. The result is the task, the address of the clone, and the new store.
\<close>

definition Queue_NewTask :: "Server \<Rightarrow> Queue \<Rightarrow> tasks_Task \<Rightarrow> string \<Rightarrow> int \<Rightarrow> Task \<times> addr \<times> Server" where
  "Queue_NewTask s queue newTaskState rnd now =
     (let name = (if Task_Name newTaskState = [] then queue_name queue @ ''/tasks/'' @ rnd
                  else Task_Name newTaskState);
          st = newTaskState\<lparr>Task_Name := name,
                 ScheduleTime := Some (case ScheduleTime newTaskState of None \<Rightarrow> now | Some t \<Rightarrow> t)\<rparr>;
          (a, s1) = clone_Task s st;
          (c, s2) = clone_Task s1 st;
          task = \<lparr>task_state = a, task_queue = queue_name queue\<rparr>;
          s3 = update_queue s2 (queue_name queue)
                 (\<lambda>q. q\<lparr>queue_ts := AList.update name (Some task) (queue_ts q)\<rparr>)
      in (task, c, s3))"

subsection \<open>Retry policy and one dispatch\<close>

text \<open>\<^verbatim>\<open>clamp(x, lo, hi)\<close>: \<open>x\<close>, held between \<open>lo\<close> and \<open>hi\<close>.\<close>

definition clamp :: "int \<Rightarrow> int \<Rightarrow> int \<Rightarrow> int" where
  "clamp x lo hi = max lo (min hi x)"

text \<open>
  Modelled from the spec: the retry policy (missing), section 4.1: "Given
  (attempt-index n \<ge> 0, policy P) returns a delay ...
  \<^verbatim>\<open>clamp(minBackoff * 2^min(n, maxDoublings), minBackoff, maxBackoff)\<close>".
\<close>

definition retryDelay :: "RetryConfig \<Rightarrow> nat \<Rightarrow> int" where
  "retryDelay P n =
     clamp (MinBackoff P * 2 ^ nat (min (int n) (MaxDoublings P))) (MinBackoff P) (MaxBackoff P)"

text \<open>
  Modelled from the spec: termination (missing): "the Task stops after maxAttempts
  dispatches, or when the cumulative elapsed time since the first attempt would exceed
  maxRetryDuration (if set)". \<open>st\<close> is the task after the failed dispatch was counted,
  \<open>next\<close> the instant of the next dispatch.
\<close>

definition retryDone :: "RetryConfig \<Rightarrow> tasks_Task \<Rightarrow> int \<Rightarrow> bool" where
  "retryDone P st next =
     (MaxAttempts P \<le> DispatchCount st \<or>
      (case MaxRetryDuration P of
         None \<Rightarrow> False
       | Some d \<Rightarrow> (case FirstAttempt st of None \<Rightarrow> False | Some f \<Rightarrow> d < next - f)))"

text \<open>
  Modelled from the spec: the dispatch algorithm of a task (missing), section 4.2,
  steps 1 to 4, on the task's message: \<open>now\<close> is the start of the attempt, \<open>status\<close>
  the HTTP status that came back (anything but 2xx is a failure). The result is the new
  message and whether the task is terminal. The attempt index handed to the policy is
  the glossary's "zero-based count of dispatches performed (0 for the first attempt)":
  the dispatch count after the increment, less one.
\<close>

definition attempt :: "RetryConfig \<Rightarrow> tasks_Task \<Rightarrow> int \<Rightarrow> int \<Rightarrow> tasks_Task \<times> bool" where
  "attempt P st now status =
     (let st1 = st\<lparr>FirstAttempt := (case FirstAttempt st of None \<Rightarrow> Some now | Some f \<Rightarrow> Some f)\<rparr>
      in if 200 \<le> status \<and> status \<le> 299
         then (st1\<lparr>DispatchCount := DispatchCount st1 + 1\<rparr>, True)
         else (let st2 = st1\<lparr>DispatchCount := DispatchCount st1 + 1,
                             ResponseCount := ResponseCount st1 + 1\<rparr>;
                   next = (case ScheduleTime st2 of None \<Rightarrow> now | Some t \<Rightarrow> t)
                          + retryDelay P (nat (DispatchCount st2 - 1))
               in if retryDone P st2 next then (st2, True)
                  else (st2\<lparr>ScheduleTime := Some next\<rparr>, False)))"

text \<open>
  Modelled from the spec: the timer of a live task fires (missing): a task that is
  not live, or whose queue is paused ("a queue-wide gate that the Task checks at
  dispatch time"), does not dispatch; a terminal outcome invokes the removal callback.
\<close>

definition Dispatch :: "Server \<Rightarrow> string \<Rightarrow> int \<Rightarrow> int \<Rightarrow> Server" where
  "Dispatch s name now status =
     (case fetchTask s name of
        Some (Some task) \<Rightarrow>
          (case fetchQueue s (task_queue task) of
             Some (Some queue) \<Rightarrow>
               (let q = queue_heap s (queue_state queue)
                in if State q = PAUSED then s
                   else (let P = (case Queue_RetryConfig q of None \<Rightarrow> defaultRetryConfig | Some c \<Rightarrow> c);
                             (st, done) = attempt P (task_heap s (task_state task)) now status;
                             s1 = s\<lparr>task_heap := (task_heap s)(task_state task := st)\<rparr>
                         in if done then taskDone s1 task else s1))
           | _ \<Rightarrow> s)
      | _ \<Rightarrow> s)"

section \<open>The handlers of \<^verbatim>\<open>emulator.go\<close>\<close>

text \<open>
  A handler that changes the server returns its result and the new server; one that
  only reads returns its result. A handler that fails returns the server as it was.
\<close>

definition ListQueues :: "Server \<Rightarrow> failure + addr list" where
  "ListQueues s = Inr (map queue_state (live (qs s)))"

definition GetQueue :: "Server \<Rightarrow> string \<Rightarrow> failure + addr" where
  "GetQueue s name =
     (case fetchQueue s name of
        Some (Some queue) \<Rightarrow> Inr (queue_state queue)
      | _ \<Rightarrow> Inl (Status NotFound))"

text \<open>
  \<^verbatim>\<open>in.GetQueue()\<close> may be nil, whose getters return zero values: the name \<^verbatim>\<open>""\<close>,
  which no pattern matches, so that nil is never cloned.
\<close>

definition CreateQueue :: "Server \<Rightarrow> CreateQueueRequest \<Rightarrow> (failure + addr) \<times> Server" where
  "CreateQueue s req =
     (let queueState = (case CreateQueue_Queue req of None \<Rightarrow> zero_Queue | Some q \<Rightarrow> q);
          name = Queue_Name queueState
      in if \<not> MatchString queue_name_regex name then (Inl (Status InvalidArgument), s)
         else if \<not> MatchString parent_regex (CreateQueue_Parent req)
         then (Inl (Status InvalidArgument), s)
         else (case fetchQueue s name of
                 Some (Some queue) \<Rightarrow> (Inl (Status AlreadyExists), s)
               | Some None \<Rightarrow> (Inl (Status FailedPrecondition), s)
               | None \<Rightarrow>
                   (let (a, s1) = clone_Queue s queueState;
                        (queue, queueState', s2) = NewQueue s1 name a
                    in (Inr queueState', setQueue s2 name (Some queue)))))"

definition UpdateQueue :: "Server \<Rightarrow> (failure + addr) \<times> Server" where
  "UpdateQueue s = (Inl (Status Unimplemented), s)"

definition DeleteQueue :: "Server \<Rightarrow> string \<Rightarrow> (failure + unit) \<times> Server" where
  "DeleteQueue s name =
     (case fetchQueue s name of
        Some (Some queue) \<Rightarrow> (Inr (), removeQueue (Queue_Delete s queue) name)
      | _ \<Rightarrow> (Inl (Status NotFound), s))"

text \<open>
  \<^verbatim>\<open>queue, _ := s.fetchQueue(in.GetName())\<close> drops the flag: an absent name and a
  tombstone both give a nil \<^verbatim>\<open>*Queue\<close>.
\<close>

definition fetchQueue_unchecked :: "Server \<Rightarrow> string \<Rightarrow> Queue option" where
  "fetchQueue_unchecked s name = (case fetchQueue s name of None \<Rightarrow> None | Some q \<Rightarrow> q)"

text \<open>
  The three handlers below use the queue without a nil check; \<^verbatim>\<open>queue.state\<close> on a
  nil \<^verbatim>\<open>*Queue\<close> is a nil pointer dereference, at the latest in the \<^verbatim>\<open>return\<close>.
\<close>

definition PurgeQueue :: "Server \<Rightarrow> string \<Rightarrow> (failure + addr) \<times> Server" where
  "PurgeQueue s name =
     (case fetchQueue_unchecked s name of
        None \<Rightarrow> (Inl Panic, s)
      | Some queue \<Rightarrow>
          (if HardResetOnPurgeQueue (Options s)
           then (Inr (queue_state queue), Queue_HardReset s queue)
           else (Inr (queue_state queue), Queue_Purge s queue)))"

definition PauseQueue :: "Server \<Rightarrow> string \<Rightarrow> (failure + addr) \<times> Server" where
  "PauseQueue s name =
     (case fetchQueue_unchecked s name of
        None \<Rightarrow> (Inl Panic, s)
      | Some queue \<Rightarrow> (Inr (queue_state queue), Queue_Pause s queue))"

definition ResumeQueue :: "Server \<Rightarrow> string \<Rightarrow> (failure + addr) \<times> Server" where
  "ResumeQueue s name =
     (case fetchQueue_unchecked s name of
        None \<Rightarrow> (Inl Panic, s)
      | Some queue \<Rightarrow> (Inr (queue_state queue), Queue_Resume s queue))"

text \<open>
  Lines 268 to 282 of \<^verbatim>\<open>ListTasks\<close>: cut the page off the rest \<open>l\<close> of the list, which
  starts at offset \<open>start\<close>, and name the next offset when something is left.
\<close>

definition page :: "int \<Rightarrow> Task list \<Rightarrow> int \<Rightarrow> ListTasksResponse" where
  "page start l pageSize =
     (if int (length l) > pageSize
      then \<lparr>Tasks = map task_state (take (nat pageSize) l), NextPageToken = Itoa (start + pageSize)\<rparr>
      else \<lparr>Tasks = map task_state l, NextPageToken = []\<rparr>)"

text \<open>
  Lines 235 to 244 of \<^verbatim>\<open>ListTasks\<close>: the live tasks of the queue, sorted.
  \<^verbatim>\<open>sort.SliceStable\<close> with \<^verbatim>\<open>strings.Compare(a, b) < 0\<close> is a stable sort by name in
  the bytewise lexicographic order, as \<^const>\<open>sort_key\<close> is.
\<close>

definition sorted_tasks :: "Server \<Rightarrow> Queue \<Rightarrow> Task list" where
  "sorted_tasks s queue =
     sort_key (\<lambda>task. Task_Name (task_heap s (task_state task))) (live (queue_ts queue))"

text \<open>
  \<^verbatim>\<open>l = l[start:]\<close> panics unless \<^verbatim>\<open>0 <= start <= len(l)\<close>, and it comes before the
  check of the page size.
\<close>

definition ListTasks :: "Server \<Rightarrow> ListTasksRequest \<Rightarrow> failure + ListTasksResponse" where
  "ListTasks s req =
     (case fetchQueue s (ListTasks_Parent req) of
        Some (Some queue) \<Rightarrow>
          (let l = sorted_tasks s queue
           in case (if PageToken req \<noteq> [] then Atoi (PageToken req) else Some 0) of
                None \<Rightarrow> Inl (Status InvalidArgument)
              | Some start \<Rightarrow>
                  if start < 0 \<or> int (length l) < start then Inl Panic
                  else (let l1 = drop (nat start) l
                        in if PageSize req < 0 then Inl (Status InvalidArgument)
                           else if PageSize req = 0 then Inr (page start l1 1000)
                           else if PageSize req > 1000 then Inl (Status InvalidArgument)
                           else Inr (page start l1 (PageSize req))))
      | _ \<Rightarrow> Inl (Status NotFound))"

definition GetTask :: "Server \<Rightarrow> string \<Rightarrow> failure + addr" where
  "GetTask s name =
     (case fetchTask s name of
        None \<Rightarrow> Inl (Status NotFound)
      | Some None \<Rightarrow> Inl (Status FailedPrecondition)
      | Some (Some task) \<Rightarrow> Inr (task_state task))"

text \<open>
  \<^verbatim>\<open>in.Task.Name\<close> reads a field of \<^verbatim>\<open>in.Task\<close>, which panics when the request has no
  task. \<open>rnd\<close> and \<open>now\<close> are the random digits and the clock that \<^verbatim>\<open>NewTask\<close> draws.
\<close>

definition CreateTask :: "Server \<Rightarrow> CreateTaskRequest \<Rightarrow> string \<Rightarrow> int \<Rightarrow> (failure + addr) \<times> Server" where
  "CreateTask s req rnd now =
     (let queueName = CreateTask_Parent req
      in case fetchQueue s queueName of
           None \<Rightarrow> (Inl (Status NotFound), s)
         | Some None \<Rightarrow> (Inl (Status FailedPrecondition), s)
         | Some (Some queue) \<Rightarrow>
             (case CreateTask_Task req of
                None \<Rightarrow> (Inl Panic, s)
              | Some t \<Rightarrow>
                  if Task_Name t \<noteq> [] \<and> \<not> isValidTaskName (Task_Name t)
                  then (Inl (Status InvalidArgument), s)
                  else if Task_Name t \<noteq> [] \<and> \<not> HasPrefix (Task_Name t) (queueName @ ''/tasks/'')
                  then (Inl (Status InvalidArgument), s)
                  else if Task_Name t \<noteq> [] \<and> fetchTask s (Task_Name t) \<noteq> None
                  then (Inl (Status AlreadyExists), s)
                  else (let (task, taskState, s1) = Queue_NewTask s queue t rnd now
                        in (Inr taskState, setTask s1 (Task_Name (task_heap s1 taskState)) (Some task)))))"

text \<open>"The removal of the task from the server struct is handled in the queue callback".\<close>

definition DeleteTask :: "Server \<Rightarrow> string \<Rightarrow> (failure + unit) \<times> Server" where
  "DeleteTask s name =
     (case fetchTask s name of
        None \<Rightarrow> (Inl (Status NotFound), s)
      | Some None \<Rightarrow> (Inl (Status NotFound), s)
      | Some (Some task) \<Rightarrow> (Inr (), Task_Delete s task))"

definition RunTask :: "Server \<Rightarrow> string \<Rightarrow> (failure + addr) \<times> Server" where
  "RunTask s name =
     (case fetchTask s name of
        None \<Rightarrow> (Inl (Status NotFound), s)
      | Some None \<Rightarrow> (Inl (Status NotFound), s)
      | Some (Some task) \<Rightarrow> (case Task_Run s task of (taskState, s1) \<Rightarrow> (Inr taskState, s1)))"

section \<open>Histories\<close>

text \<open>
  Everything that changes the server: the mutating requests, with the values that
  \<^verbatim>\<open>NewTask\<close> draws, and the outcome of one dispatch of a task.
\<close>

datatype event =
    E_CreateQueue CreateQueueRequest
  | E_DeleteQueue string
  | E_PurgeQueue string
  | E_PauseQueue string
  | E_ResumeQueue string
  | E_CreateTask CreateTaskRequest string int
  | E_DeleteTask string
  | E_RunTask string
  | E_Dispatch string int int

fun step :: "Server \<Rightarrow> event \<Rightarrow> Server" where
  "step s (E_CreateQueue req) = snd (CreateQueue s req)"
| "step s (E_DeleteQueue name) = snd (DeleteQueue s name)"
| "step s (E_PurgeQueue name) = snd (PurgeQueue s name)"
| "step s (E_PauseQueue name) = snd (PauseQueue s name)"
| "step s (E_ResumeQueue name) = snd (ResumeQueue s name)"
| "step s (E_CreateTask req rnd now) = snd (CreateTask s req rnd now)"
| "step s (E_DeleteTask name) = snd (DeleteTask s name)"
| "step s (E_RunTask name) = snd (RunTask s name)"
| "step s (E_Dispatch name now status) = Dispatch s name now status"

definition run :: "Server \<Rightarrow> event list \<Rightarrow> Server" where
  "run s evs = foldl step s evs"

text \<open>
  A client that lists a queue page by page: it sends the token of the previous
  response until a response has none. \<open>None\<close>: a request failed, or the fuel ran out.
\<close>

fun follow_pages :: "nat \<Rightarrow> Server \<Rightarrow> string \<Rightarrow> int \<Rightarrow> string \<Rightarrow> addr list option" where
  "follow_pages 0 s parent pageSize token = None"
| "follow_pages (Suc n) s parent pageSize token =
     (case ListTasks s \<lparr>ListTasks_Parent = parent, PageSize = pageSize, PageToken = token\<rparr> of
        Inl e \<Rightarrow> None
      | Inr r \<Rightarrow>
          if NextPageToken r = [] then Some (Tasks r)
          else map_option ((@) (Tasks r)) (follow_pages n s parent pageSize (NextPageToken r)))"

text \<open>
  The instants at which the timer of a task fires in its first \<open>k\<close> dispatches, when
  every dispatch is answered with the same status: a dispatch starts at the scheduled
  time of the task. \<open>delays\<close> are the gaps between them, the first one counted from
  the instant \<open>t0\<close>.
\<close>

fun dispatch_times :: "nat \<Rightarrow> Server \<Rightarrow> string \<Rightarrow> int \<Rightarrow> int list" where
  "dispatch_times 0 s name status = []"
| "dispatch_times (Suc k) s name status =
     (case fetchTask s name of
        Some (Some task) \<Rightarrow>
          (case ScheduleTime (task_heap s (task_state task)) of
             Some t \<Rightarrow> t # dispatch_times k (Dispatch s name t status) name status
           | None \<Rightarrow> [])
      | _ \<Rightarrow> [])"

fun delays :: "int \<Rightarrow> int list \<Rightarrow> int list" where
  "delays t0 [] = []"
| "delays t0 (t # rest) = (t - t0) # delays t rest"

text \<open>The page size that \<^verbatim>\<open>ListTasks\<close> works with: 0 stands for the default.\<close>

definition effective_page_size :: "int \<Rightarrow> int" where
  "effective_page_size n = (if n = 0 then 1000 else n)"

section \<open>Invariant of the registry, and the scenarios of the examples\<close>

text \<open>
  Every live entry of the server's task map is registered under the name that its
  message bears, and its message was allocated.
\<close>

definition registry_inv :: "Server \<Rightarrow> bool" where
  "registry_inv s =
     list_all (\<lambda>(k, v). case v of
                          None \<Rightarrow> True
                        | Some t \<Rightarrow> Task_Name (task_heap s (task_state t)) = k \<and> task_state t < next_addr s)
       (ts s)"

definition parent0 :: string where
  "parent0 = ''projects/p/locations/l''"

definition queue0 :: string where
  "queue0 = ''projects/p/locations/l/queues/q''"

definition task0 :: string where
  "task0 = ''projects/p/locations/l/queues/q/tasks/x''"

definition create_queue0 :: CreateQueueRequest where
  "create_queue0 = \<lparr>CreateQueue_Parent = parent0, CreateQueue_Queue = Some (zero_Queue\<lparr>Queue_Name := queue0\<rparr>)\<rparr>"

definition create_task0 :: CreateTaskRequest where
  "create_task0 = \<lparr>CreateTask_Parent = queue0, CreateTask_Task = Some (zero_Task\<lparr>Task_Name := task0\<rparr>)\<rparr>"

text \<open>A new server with the queue \<open>queue0\<close>, and the same with the task \<open>task0\<close> created at time 0.\<close>

definition server1 :: Server where
  "server1 = run NewServer [E_CreateQueue create_queue0]"

definition server2 :: Server where
  "server2 = run NewServer [E_CreateQueue create_queue0, E_CreateTask create_task0 ''7'' 0]"

text \<open>The queue \<open>queue0\<close> with three tasks, created in the order c, a, b.\<close>

definition create_named :: "string \<Rightarrow> CreateTaskRequest" where
  "create_named n = \<lparr>CreateTask_Parent = queue0, CreateTask_Task = Some (zero_Task\<lparr>Task_Name := queue0 @ ''/tasks/'' @ n\<rparr>)\<rparr>"

definition server3 :: Server where
  "server3 = run NewServer [E_CreateQueue create_queue0, E_CreateTask (create_named ''c'') ''7'' 0,
                            E_CreateTask (create_named ''a'') ''8'' 0, E_CreateTask (create_named ''b'') ''9'' 0]"

section \<open>Evaluating the scenarios\<close>

lemmas eval_defs = CreateQueue_def NewQueue_def clone_Queue_def clone_Task_def setQueue_def fetchQueue_def
  MatchString_def queue_name_regex_def parent_regex_def task_name_regex_def id_char_def task_id_char_def
  setInitialQueueState_def zero_Queue_def zero_Task_def NewServer_def PauseQueue_def PurgeQueue_def
  ResumeQueue_def fetchQueue_unchecked_def DeleteQueue_def removeQueue_def Queue_Delete_def
  Queue_Purge_def Queue_HardReset_def Task_Delete_def taskDone_def onTaskDone_def removeTask_def
  setTask_def fetchTask_def hardDeleteTask_def update_queue_def Queue_Pause_def Queue_Resume_def
  Queue_NewTask_def CreateTask_def isValidTaskName_def HasPrefix_def GetTask_def GetQueue_def
  ListTasks_def sorted_tasks_def page_def Atoi_def is_digit_def digit_val_def DeleteTask_def RunTask_def Task_Run_def
  Dispatch_def attempt_def retryDone_def retryDelay_def clamp_def defaultRetryConfig_def
  millisecond_def second_def run_def Let_def parent0_def queue0_def task0_def create_queue0_def
  create_task0_def

lemma server1_eq:
  "server1 =
     \<lparr>qs = [(queue0, Some \<lparr>queue_name = queue0, queue_state = 0, queue_ts = []\<rparr>)],
      ts = [],
      Options = \<lparr>HardResetOnPurgeQueue = False\<rparr>,
      queue_heap = (\<lambda>_. zero_Queue)
        (0 := \<lparr>Queue_Name = queue0, Queue_RetryConfig = Some defaultRetryConfig, State = RUNNING\<rparr>,
         1 := \<lparr>Queue_Name = queue0, Queue_RetryConfig = Some defaultRetryConfig, State = RUNNING\<rparr>),
      task_heap = (\<lambda>_. zero_Task),
      next_addr = 2\<rparr>"
  unfolding server1_def by (simp add: eval_defs numeral_2_eq_2)

lemma server2_eq:
  "server2 =
     \<lparr>qs = [(queue0, Some \<lparr>queue_name = queue0, queue_state = 0,
                           queue_ts = [(task0, Some \<lparr>task_state = 2, task_queue = queue0\<rparr>)]\<rparr>)],
      ts = [(task0, Some \<lparr>task_state = 2, task_queue = queue0\<rparr>)],
      Options = \<lparr>HardResetOnPurgeQueue = False\<rparr>,
      queue_heap = (\<lambda>_. zero_Queue)
        (0 := \<lparr>Queue_Name = queue0, Queue_RetryConfig = Some defaultRetryConfig, State = RUNNING\<rparr>,
         1 := \<lparr>Queue_Name = queue0, Queue_RetryConfig = Some defaultRetryConfig, State = RUNNING\<rparr>),
      task_heap = (\<lambda>_. zero_Task)
        (2 := \<lparr>Task_Name = task0, Url = [], ScheduleTime = Some 0, DispatchCount = 0,
                ResponseCount = 0, FirstAttempt = None\<rparr>,
         3 := \<lparr>Task_Name = task0, Url = [], ScheduleTime = Some 0, DispatchCount = 0,
                ResponseCount = 0, FirstAttempt = None\<rparr>),
      next_addr = 4\<rparr>"
  unfolding server2_def by (simp add: eval_defs numeral_2_eq_2 numeral_3_eq_3 eval_nat_numeral)

lemma server2_deleted_ts: "ts (snd (DeleteTask server2 task0)) = [(task0, None)]"
  by (simp add: server2_eq DeleteTask_def fetchTask_def Task_Delete_def taskDone_def onTaskDone_def
        removeTask_def setTask_def update_queue_def task0_def queue0_def Let_def)

section \<open>Frame lemmas and the invariant of the registry\<close>

lemma set_AList_update: "set (AList.update k v al) \<subseteq> insert (k, v) (set al)"
  by (induction al) auto

lemma keys_AList_update: "fst ` set al \<subseteq> fst ` set (AList.update k v al)"
  by (auto simp: dom_update)

lemma update_queue_fields [simp]:
  "ts (update_queue s n f) = ts s"
  "task_heap (update_queue s n f) = task_heap s"
  "queue_heap (update_queue s n f) = queue_heap s"
  "next_addr (update_queue s n f) = next_addr s"
  "Options (update_queue s n f) = Options s"
  by (simp_all add: update_queue_def split: option.splits)

lemma taskDone_fields [simp]:
  "ts (taskDone s t) = AList.update (Task_Name (task_heap s (task_state t))) None (ts s)"
  "task_heap (taskDone s t) = task_heap s"
  "queue_heap (taskDone s t) = queue_heap s"
  "next_addr (taskDone s t) = next_addr s"
  "Options (taskDone s t) = Options s"
  by (simp_all add: taskDone_def onTaskDone_def removeTask_def setTask_def Let_def)

lemma registry_inv_iff:
  "registry_inv s \<longleftrightarrow>
     (\<forall>k t. (k, Some t) \<in> set (ts s) \<longrightarrow>
        Task_Name (task_heap s (task_state t)) = k \<and> task_state t < next_addr s)"
  unfolding registry_inv_def list_all_iff
proof (intro iffI allI impI ballI)
  fix k t
  assume "\<forall>x\<in>set (ts s). case x of (k, v) \<Rightarrow>
            (case v of None \<Rightarrow> True
             | Some t \<Rightarrow> Task_Name (task_heap s (task_state t)) = k \<and> task_state t < next_addr s)"
    and "(k, Some t) \<in> set (ts s)"
  then show "Task_Name (task_heap s (task_state t)) = k \<and> task_state t < next_addr s"
    by fastforce
next
  fix x
  assume h: "\<forall>k t. (k, Some t) \<in> set (ts s) \<longrightarrow>
               Task_Name (task_heap s (task_state t)) = k \<and> task_state t < next_addr s"
    and x: "x \<in> set (ts s)"
  obtain k v where kv: "x = (k, v)" by (cases x)
  show "case x of (k, v) \<Rightarrow>
            (case v of None \<Rightarrow> True
             | Some t \<Rightarrow> Task_Name (task_heap s (task_state t)) = k \<and> task_state t < next_addr s)"
    using h x kv by (cases v) auto
qed

lemma registry_inv_tombstone:
  assumes inv: "registry_inv s" and sub: "set (ts s') \<subseteq> insert (k, None) (set (ts s))"
    and le: "next_addr s \<le> next_addr s'"
    and heap: "\<And>a. a < next_addr s \<Longrightarrow> Task_Name (task_heap s' a) = Task_Name (task_heap s a)"
  shows "registry_inv s'"
  unfolding registry_inv_iff
proof (intro allI impI)
  fix k' t
  assume "(k', Some t) \<in> set (ts s')"
  with sub have "(k', Some t) \<in> set (ts s)" by auto
  with inv have *: "Task_Name (task_heap s (task_state t)) = k'" "task_state t < next_addr s"
    unfolding registry_inv_iff by blast+
  from * heap [of "task_state t"] le
  show "Task_Name (task_heap s' (task_state t)) = k' \<and> task_state t < next_addr s'"
    by simp
qed

lemma registry_inv_frame:
  assumes "registry_inv s" and "set (ts s') \<subseteq> set (ts s)" and "next_addr s \<le> next_addr s'"
    and "\<And>a. a < next_addr s \<Longrightarrow> Task_Name (task_heap s' a) = Task_Name (task_heap s a)"
  shows "registry_inv s'"
  using assms(1) _ assms(3,4)
  by (rule registry_inv_tombstone [where k = undefined]) (use assms(2) in blast)

lemma registry_inv_taskDone: "registry_inv s \<Longrightarrow> registry_inv (taskDone s t)"
proof (rule registry_inv_tombstone [where k = "Task_Name (task_heap s (task_state t))"])
  show "set (ts (taskDone s t)) \<subseteq> insert (Task_Name (task_heap s (task_state t)), None) (set (ts s))"
    by (simp add: set_AList_update)
qed simp_all

lemma foldl_Task_Delete_fields [simp]:
  "task_heap (foldl Task_Delete s l) = task_heap s"
  "queue_heap (foldl Task_Delete s l) = queue_heap s"
  "next_addr (foldl Task_Delete s l) = next_addr s"
  "Options (foldl Task_Delete s l) = Options s"
  by (induction l arbitrary: s) (simp_all add: Task_Delete_def)

lemma registry_inv_foldl_Task_Delete: "registry_inv s \<Longrightarrow> registry_inv (foldl Task_Delete s l)"
  by (induction l arbitrary: s) (simp_all add: Task_Delete_def registry_inv_taskDone)

lemma keys_foldl_Task_Delete: "fst ` set (ts s) \<subseteq> fst ` set (ts (foldl Task_Delete s l))"
proof (induction l arbitrary: s)
  case Nil
  show ?case by simp
next
  case (Cons t l)
  have "fst ` set (ts s) \<subseteq> fst ` set (ts (Task_Delete s t))"
    by (simp add: Task_Delete_def keys_AList_update)
  also have "\<dots> \<subseteq> fst ` set (ts (foldl Task_Delete (Task_Delete s t) l))"
    by (rule Cons.IH)
  finally show ?case by simp
qed

lemma foldl_hardDeleteTask_fields [simp]:
  "task_heap (foldl hardDeleteTask s l) = task_heap s"
  "queue_heap (foldl hardDeleteTask s l) = queue_heap s"
  "next_addr (foldl hardDeleteTask s l) = next_addr s"
  "Options (foldl hardDeleteTask s l) = Options s"
  by (induction l arbitrary: s) (simp_all add: hardDeleteTask_def)

lemma set_ts_foldl_hardDeleteTask: "set (ts (foldl hardDeleteTask s l)) \<subseteq> set (ts s)"
proof (induction l arbitrary: s)
  case Nil
  show ?case by simp
next
  case (Cons k l)
  have "set (ts (foldl hardDeleteTask (hardDeleteTask s k) l)) \<subseteq> set (ts (hardDeleteTask s k))"
    by (rule Cons.IH)
  also have "\<dots> \<subseteq> set (ts s)"
    by (auto simp: hardDeleteTask_def AList.delete_eq)
  finally show ?case by simp
qed

lemma registry_inv_Queue_Purge: "registry_inv s \<Longrightarrow> registry_inv (Queue_Purge s q)"
  by (simp add: Queue_Purge_def registry_inv_foldl_Task_Delete)

lemma registry_inv_Queue_HardReset: "registry_inv s \<Longrightarrow> registry_inv (Queue_HardReset s q)"
  unfolding Queue_HardReset_def
proof (rule registry_inv_frame [OF registry_inv_Queue_Purge [of s q]])
  show "set (ts (foldl hardDeleteTask (Queue_Purge s q) (map fst (queue_ts q)))) \<subseteq> set (ts (Queue_Purge s q))"
    by (rule set_ts_foldl_hardDeleteTask)
qed simp_all

lemma Task_Name_attempt [simp]: "Task_Name (fst (attempt P st now status)) = Task_Name st"
  by (simp add: attempt_def Let_def)

lemma registry_inv_insert:
  assumes inv: "registry_inv s" and sub: "set (ts s') \<subseteq> insert (k, Some t) (set (ts s))"
    and le: "next_addr s \<le> next_addr s'"
    and heap: "\<And>a. a < next_addr s \<Longrightarrow> Task_Name (task_heap s' a) = Task_Name (task_heap s a)"
    and new: "Task_Name (task_heap s' (task_state t)) = k" "task_state t < next_addr s'"
  shows "registry_inv s'"
  unfolding registry_inv_iff
proof (intro allI impI)
  fix k' t'
  assume "(k', Some t') \<in> set (ts s')"
  with sub consider "k' = k" "t' = t" | "(k', Some t') \<in> set (ts s)" by auto
  then show "Task_Name (task_heap s' (task_state t')) = k' \<and> task_state t' < next_addr s'"
  proof cases
    case 1
    with new show ?thesis by simp
  next
    case 2
    with inv have *: "Task_Name (task_heap s (task_state t')) = k'" "task_state t' < next_addr s"
      unfolding registry_inv_iff by blast+
    from * heap [of "task_state t'"] le show ?thesis by simp
  qed
qed

text \<open>What each handler does to the fields that the registry invariant reads.\<close>

lemma CreateQueue_fields:
  "ts (snd (CreateQueue s req)) = ts s"
  "task_heap (snd (CreateQueue s req)) = task_heap s"
  "next_addr s \<le> next_addr (snd (CreateQueue s req))"
  "Options (snd (CreateQueue s req)) = Options s"
  by (simp_all add: CreateQueue_def NewQueue_def clone_Queue_def setQueue_def Let_def
        split: option.splits)

lemma Queue_Purge_fields [simp]:
  "task_heap (Queue_Purge s q) = task_heap s"
  "queue_heap (Queue_Purge s q) = queue_heap s"
  "next_addr (Queue_Purge s q) = next_addr s"
  "Options (Queue_Purge s q) = Options s"
  by (simp_all add: Queue_Purge_def)

lemma Queue_HardReset_fields [simp]:
  "task_heap (Queue_HardReset s q) = task_heap s"
  "queue_heap (Queue_HardReset s q) = queue_heap s"
  "next_addr (Queue_HardReset s q) = next_addr s"
  "Options (Queue_HardReset s q) = Options s"
  by (simp_all add: Queue_HardReset_def)

lemma keys_Queue_Purge: "fst ` set (ts s) \<subseteq> fst ` set (ts (Queue_Purge s q))"
  by (simp add: Queue_Purge_def keys_foldl_Task_Delete)

lemma DeleteQueue_Options: "Options (snd (DeleteQueue s name)) = Options s"
  by (simp add: DeleteQueue_def removeQueue_def setQueue_def Queue_Delete_def split: option.splits)

lemma DeleteQueue_keys: "fst ` set (ts s) \<subseteq> fst ` set (ts (snd (DeleteQueue s name)))"
  by (simp add: DeleteQueue_def removeQueue_def setQueue_def Queue_Delete_def keys_Queue_Purge
        split: option.splits)

lemma DeleteQueue_inv: "registry_inv s \<Longrightarrow> registry_inv (snd (DeleteQueue s name))"
proof (cases "fetchQueue s name")
  case None
  assume "registry_inv s"
  with None show ?thesis by (simp add: DeleteQueue_def)
next
  case (Some e)
  assume inv: "registry_inv s"
  show ?thesis
  proof (cases e)
    case None
    with Some inv show ?thesis by (simp add: DeleteQueue_def)
  next
    case (Some q)
    have "registry_inv (removeQueue (Queue_Purge s q) name)"
      by (rule registry_inv_frame [OF registry_inv_Queue_Purge [OF inv, of q]])
         (simp_all add: removeQueue_def setQueue_def)
    with Some \<open>fetchQueue s name = Some e\<close> show ?thesis
      by (simp add: DeleteQueue_def Queue_Delete_def)
  qed
qed

lemma PurgeQueue_Options: "Options (snd (PurgeQueue s name)) = Options s"
  by (simp add: PurgeQueue_def split: option.splits)

lemma PurgeQueue_keys:
  "\<not> HardResetOnPurgeQueue (Options s) \<Longrightarrow> fst ` set (ts s) \<subseteq> fst ` set (ts (snd (PurgeQueue s name)))"
  by (simp add: PurgeQueue_def keys_Queue_Purge split: option.splits)

lemma PurgeQueue_inv: "registry_inv s \<Longrightarrow> registry_inv (snd (PurgeQueue s name))"
  by (simp add: PurgeQueue_def registry_inv_Queue_Purge registry_inv_Queue_HardReset split: option.splits)

lemma PauseQueue_fields:
  "ts (snd (PauseQueue s name)) = ts s"
  "task_heap (snd (PauseQueue s name)) = task_heap s"
  "next_addr (snd (PauseQueue s name)) = next_addr s"
  "Options (snd (PauseQueue s name)) = Options s"
  by (simp_all add: PauseQueue_def Queue_Pause_def split: option.splits)

lemma ResumeQueue_fields:
  "ts (snd (ResumeQueue s name)) = ts s"
  "task_heap (snd (ResumeQueue s name)) = task_heap s"
  "next_addr (snd (ResumeQueue s name)) = next_addr s"
  "Options (snd (ResumeQueue s name)) = Options s"
  by (simp_all add: ResumeQueue_def Queue_Resume_def split: option.splits)

lemma DeleteTask_Options: "Options (snd (DeleteTask s name)) = Options s"
  by (simp add: DeleteTask_def Task_Delete_def split: option.splits)

lemma DeleteTask_keys: "fst ` set (ts s) \<subseteq> fst ` set (ts (snd (DeleteTask s name)))"
  by (simp add: DeleteTask_def Task_Delete_def keys_AList_update split: option.splits)

lemma DeleteTask_inv: "registry_inv s \<Longrightarrow> registry_inv (snd (DeleteTask s name))"
  by (simp add: DeleteTask_def Task_Delete_def registry_inv_taskDone split: option.splits)

lemma RunTask_fields:
  "ts (snd (RunTask s name)) = ts s"
  "Options (snd (RunTask s name)) = Options s"
  "next_addr s \<le> next_addr (snd (RunTask s name))"
  "a < next_addr s \<Longrightarrow> task_heap (snd (RunTask s name)) a = task_heap s a"
  by (simp_all add: RunTask_def Task_Run_def clone_Task_def split: option.splits)

lemma Dispatch_Options: "Options (Dispatch s name now status) = Options s"
  by (simp add: Dispatch_def Let_def split: option.splits prod.splits)

lemma Dispatch_keys: "fst ` set (ts s) \<subseteq> fst ` set (ts (Dispatch s name now status))"
  by (simp add: Dispatch_def Let_def keys_AList_update split: option.splits prod.splits)

lemma registry_inv_heap_update:
  assumes "registry_inv s" and "Task_Name st = Task_Name (task_heap s a)"
  shows "registry_inv (s\<lparr>task_heap := (task_heap s)(a := st)\<rparr>)"
  by (rule registry_inv_frame [OF assms(1)]) (use assms(2) in simp_all)

lemma Dispatch_inv:
  assumes inv: "registry_inv s"
  shows "registry_inv (Dispatch s name now status)"
proof -
  have *: "registry_inv (s\<lparr>task_heap := (task_heap s)(a := fst (attempt P (task_heap s a) now status))\<rparr>)" for a P
    by (rule registry_inv_heap_update [OF inv]) simp
  show ?thesis
    using inv * 
    by (auto simp: Dispatch_def Let_def registry_inv_taskDone split: option.splits prod.splits
             dest!: arg_cong [where f = fst] intro!: registry_inv_taskDone)
qed

lemma CreateTask_cases:
  obtains (fail) e where "CreateTask s req rnd now = (Inl e, s)"
  | (ok) queue t s' where
      "fetchQueue s (CreateTask_Parent req) = Some (Some queue)"
      "CreateTask_Task req = Some t"
      "Task_Name t \<noteq> [] \<Longrightarrow> fetchTask s (Task_Name t) = None"
      "CreateTask s req rnd now = (Inr (Suc (next_addr s)), s')"
      "ts s' = AList.update (if Task_Name t = [] then queue_name queue @ ''/tasks/'' @ rnd else Task_Name t)
                 (Some \<lparr>task_state = next_addr s, task_queue = queue_name queue\<rparr>) (ts s)"
      "Options s' = Options s"
      "next_addr s' = Suc (Suc (next_addr s))"
      "\<And>a. a < next_addr s \<Longrightarrow> task_heap s' a = task_heap s a"
      "Task_Name (task_heap s' (next_addr s)) =
         (if Task_Name t = [] then queue_name queue @ ''/tasks/'' @ rnd else Task_Name t)"
      "Task_Name (task_heap s' (Suc (next_addr s))) =
         (if Task_Name t = [] then queue_name queue @ ''/tasks/'' @ rnd else Task_Name t)"
proof (cases "fetchQueue s (CreateTask_Parent req)")
  case None
  then show ?thesis by (intro fail) (simp add: CreateTask_def)
next
  case (Some e)
  show ?thesis
  proof (cases e)
    case None
    with Some show ?thesis by (intro fail) (simp add: CreateTask_def)
  next
    case q: (Some queue)
    show ?thesis
    proof (cases "CreateTask_Task req")
      case None
      with Some q show ?thesis by (intro fail) (simp add: CreateTask_def)
    next
      case t: (Some t)
      show ?thesis
      proof (cases "Task_Name t \<noteq> [] \<and> (\<not> isValidTaskName (Task_Name t) \<or>
                      \<not> HasPrefix (Task_Name t) (CreateTask_Parent req @ ''/tasks/'') \<or>
                      fetchTask s (Task_Name t) \<noteq> None)")
        case True
        have "\<exists>e. CreateTask s req rnd now = (Inl e, s)"
          using True Some q t by (simp add: CreateTask_def Let_def)
        then show ?thesis using fail by blast
      next
        case False
        show ?thesis
        proof (rule ok [of queue t "snd (CreateTask s req rnd now)"])
          show "fetchQueue s (CreateTask_Parent req) = Some (Some queue)"
            using Some q by simp
          show "CreateTask_Task req = Some t" by (rule t)
          show "Task_Name t \<noteq> [] \<Longrightarrow> fetchTask s (Task_Name t) = None"
            using False by blast
        qed (use False Some q t in
              \<open>auto simp: CreateTask_def Let_def Queue_NewTask_def clone_Task_def setTask_def\<close>)
      qed
    qed
  qed
qed

lemma CreateTask_Options: "Options (snd (CreateTask s req rnd now)) = Options s"
  by (cases rule: CreateTask_cases [of s req rnd now]) simp_all

lemma CreateTask_keys: "fst ` set (ts s) \<subseteq> fst ` set (ts (snd (CreateTask s req rnd now)))"
  by (cases rule: CreateTask_cases [of s req rnd now]) (simp_all add: keys_AList_update)

lemma CreateTask_inv:
  assumes inv: "registry_inv s"
  shows "registry_inv (snd (CreateTask s req rnd now))"
proof (cases rule: CreateTask_cases [of s req rnd now])
  case (fail e)
  with inv show ?thesis by simp
next
  case (ok queue t s')
  have "registry_inv s'"
  proof (rule registry_inv_insert [OF inv])
    show "set (ts s') \<subseteq> insert (if Task_Name t = [] then queue_name queue @ ''/tasks/'' @ rnd else Task_Name t,
             Some \<lparr>task_state = next_addr s, task_queue = queue_name queue\<rparr>) (set (ts s))"
      unfolding ok(5) by (rule set_AList_update)
  qed (use ok in simp_all)
  with ok(4) show ?thesis by simp
qed

lemma step_Options: "Options (step s e) = Options s"
  by (cases e)
     (simp_all add: CreateQueue_fields DeleteQueue_Options PurgeQueue_Options PauseQueue_fields
        ResumeQueue_fields CreateTask_Options DeleteTask_Options RunTask_fields Dispatch_Options)

lemma step_keys:
  "\<not> HardResetOnPurgeQueue (Options s) \<Longrightarrow> fst ` set (ts s) \<subseteq> fst ` set (ts (step s e))"
  by (cases e)
     (simp_all add: CreateQueue_fields DeleteQueue_keys PurgeQueue_keys PauseQueue_fields
        ResumeQueue_fields CreateTask_keys DeleteTask_keys RunTask_fields Dispatch_keys)

lemma step_inv:
  assumes inv: "registry_inv s"
  shows "registry_inv (step s e)"
proof (cases e)
  case (E_CreateQueue req)
  have "registry_inv (snd (CreateQueue s req))"
    by (rule registry_inv_frame [OF inv]) (simp_all add: CreateQueue_fields)
  with E_CreateQueue show ?thesis by simp
next
  case (E_PauseQueue name)
  have "registry_inv (snd (PauseQueue s name))"
    by (rule registry_inv_frame [OF inv]) (simp_all add: PauseQueue_fields)
  with E_PauseQueue show ?thesis by simp
next
  case (E_ResumeQueue name)
  have "registry_inv (snd (ResumeQueue s name))"
    by (rule registry_inv_frame [OF inv]) (simp_all add: ResumeQueue_fields)
  with E_ResumeQueue show ?thesis by simp
next
  case (E_RunTask name)
  have "registry_inv (snd (RunTask s name))"
    by (rule registry_inv_frame [OF inv]) (simp_all add: RunTask_fields)
  with E_RunTask show ?thesis by simp
qed (simp_all add: inv DeleteQueue_inv PurgeQueue_inv CreateTask_inv DeleteTask_inv Dispatch_inv)

lemma run_Options: "Options (run s evs) = Options s"
  unfolding run_def by (induction evs arbitrary: s) (simp_all add: step_Options)

lemma run_keys:
  "\<not> HardResetOnPurgeQueue (Options s) \<Longrightarrow> fst ` set (ts s) \<subseteq> fst ` set (ts (run s evs))"
  unfolding run_def
proof (induction evs arbitrary: s)
  case Nil
  show ?case by simp
next
  case (Cons e evs)
  have "fst ` set (ts s) \<subseteq> fst ` set (ts (step s e))"
    by (rule step_keys [OF Cons.prems])
  also have "\<dots> \<subseteq> fst ` set (ts (foldl step (step s e) evs))"
    by (rule Cons.IH) (simp add: step_Options Cons.prems)
  finally show ?case by simp
qed

lemma run_inv: "registry_inv s \<Longrightarrow> registry_inv (run s evs)"
  unfolding run_def by (induction evs arbitrary: s) (simp_all add: step_inv)

lemma NewServer_inv: "registry_inv (NewServer\<lparr>Options := opts\<rparr>)"
  by (simp add: registry_inv_def NewServer_def)

lemma reachable_inv: "registry_inv (run (NewServer\<lparr>Options := opts\<rparr>) evs)"
  by (rule run_inv [OF NewServer_inv])

lemma fetchTask_keys: "fetchTask s name \<noteq> None \<longleftrightarrow> name \<in> fst ` set (ts s)"
  by (simp add: fetchTask_def map_of_eq_None_iff)

lemma CreateTask_server1: "CreateTask server1 create_task0 ''7'' 0 = (Inr 3, server2)"
proof (rule prod_eqI)
  show "fst (CreateTask server1 create_task0 ''7'' 0) = fst (Inr 3, server2)"
    by (simp add: server1_eq eval_defs eval_nat_numeral)
  show "snd (CreateTask server1 create_task0 ''7'' 0) = snd (Inr 3, server2)"
    by (simp add: server1_def server2_def run_def)
qed

lemma server2_completed:
  "run server2 [E_Dispatch task0 0 200] =
     server2\<lparr>qs := [(queue0, Some \<lparr>queue_name = queue0, queue_state = 0, queue_ts = [(task0, None)]\<rparr>)],
             ts := [(task0, None)],
             task_heap := (task_heap server2)
               (2 := \<lparr>Task_Name = task0, Url = [], ScheduleTime = Some 0, DispatchCount = 1,
                      ResponseCount = 0, FirstAttempt = Some 0\<rparr>)\<rparr>"
  by (simp add: server2_eq eval_defs)

section \<open>Looking a task up: \<^verbatim>\<open>GetTask\<close>, \<^verbatim>\<open>DeleteTask\<close>, \<^verbatim>\<open>RunTask\<close>\<close>

text \<open>
  Claim C2. \<^verbatim>\<open>GetTask\<close> on a name that was never created returns NotFound, on a
  tombstoned name FailedPrecondition; \<^verbatim>\<open>DeleteTask\<close> and \<^verbatim>\<open>RunTask\<close> return NotFound in
  both cases and leave the server as it was; on a live name \<^verbatim>\<open>GetTask\<close> returns the
  task's state, \<^verbatim>\<open>DeleteTask\<close> deletes the task and \<^verbatim>\<open>RunTask\<close> runs it.
\<close>

theorem C2_task_lookup_cases:
  "(fetchTask s name = None \<longrightarrow>
      GetTask s name = Inl (Status NotFound) \<and>
      DeleteTask s name = (Inl (Status NotFound), s) \<and>
      RunTask s name = (Inl (Status NotFound), s)) \<and>
   (fetchTask s name = Some None \<longrightarrow>
      GetTask s name = Inl (Status FailedPrecondition) \<and>
      DeleteTask s name = (Inl (Status NotFound), s) \<and>
      RunTask s name = (Inl (Status NotFound), s)) \<and>
   (\<forall>task. fetchTask s name = Some (Some task) \<longrightarrow>
      GetTask s name = Inr (task_state task) \<and>
      DeleteTask s name = (Inr (), Task_Delete s task) \<and>
      RunTask s name = (Inr (fst (Task_Run s task)), snd (Task_Run s task)))"
  by (simp add: GetTask_def DeleteTask_def RunTask_def split: prod.splits)

theorem C2_task_lookup_cases_witness:
  "fetchTask server1 task0 = None \<and>
   GetTask server1 task0 = Inl (Status NotFound) \<and>
   fst (DeleteTask server1 task0) = Inl (Status NotFound) \<and>
   fst (RunTask server1 task0) = Inl (Status NotFound) \<and>
   fetchTask (snd (DeleteTask server2 task0)) task0 = Some None \<and>
   GetTask (snd (DeleteTask server2 task0)) task0 = Inl (Status FailedPrecondition) \<and>
   fst (DeleteTask (snd (DeleteTask server2 task0)) task0) = Inl (Status NotFound) \<and>
   fst (RunTask (snd (DeleteTask server2 task0)) task0) = Inl (Status NotFound) \<and>
   fetchTask server2 task0 = Some (Some \<lparr>task_state = 2, task_queue = queue0\<rparr>) \<and>
   GetTask server2 task0 = Inr 2 \<and>
   fst (DeleteTask server2 task0) = Inr () \<and>
   fst (RunTask server2 task0) = Inr 4"
proof -
  have a: "fetchTask server1 task0 = None"
    by (simp add: server1_eq fetchTask_def)
  have b: "fetchTask (snd (DeleteTask server2 task0)) task0 = Some None"
    by (simp add: server2_deleted_ts fetchTask_def)
  have c: "fetchTask server2 task0 = Some (Some \<lparr>task_state = 2, task_queue = queue0\<rparr>)"
    by (simp add: server2_eq fetchTask_def)
  have d: "fst (Task_Run server2 \<lparr>task_state = 2, task_queue = queue0\<rparr>) = 4"
    by (simp add: server2_eq Task_Run_def clone_Task_def)
  show ?thesis
    using a b c d C2_task_lookup_cases [of server1 task0]
      C2_task_lookup_cases [of "snd (DeleteTask server2 task0)" task0]
      C2_task_lookup_cases [of server2 task0]
    by simp
qed

section \<open>Pagination parameters of \<^verbatim>\<open>ListTasks\<close>\<close>

text \<open>
  On a live queue, what the handler does validate: a token that \<^verbatim>\<open>strconv.Atoi\<close>
  rejects, and a page size below 0 or above 1000 once the token was an offset within
  the list.
\<close>

lemma ListTasks_unparsable_token:
  assumes "fetchQueue s (ListTasks_Parent req) = Some (Some queue)"
    and "PageToken req \<noteq> []" and "Atoi (PageToken req) = None"
  shows "ListTasks s req = Inl (Status InvalidArgument)"
  using assms by (simp add: ListTasks_def Let_def)

lemma ListTasks_page_size_out_of_range:
  assumes "fetchQueue s (ListTasks_Parent req) = Some (Some queue)"
    and "PageToken req = [] \<or> (\<exists>start. Atoi (PageToken req) = Some start \<and> 0 \<le> start \<and>
           start \<le> int (length (sorted_tasks s queue)))"
    and "PageSize req < 0 \<or> 1000 < PageSize req"
  shows "ListTasks s req = Inl (Status InvalidArgument)"
  using assms by (auto simp: ListTasks_def Let_def)

lemma ListTasks_offset_out_of_range:
  assumes "fetchQueue s (ListTasks_Parent req) = Some (Some queue)"
    and "PageToken req \<noteq> []" and "Atoi (PageToken req) = Some start"
    and "start < 0 \<or> int (length (sorted_tasks s queue)) < start"
  shows "ListTasks s req = Inl Panic"
  using assms by (auto simp: ListTasks_def Let_def)

text \<open>
  Claim C5 says that every page token that is not a decimal offset into the task list
  yields InvalidArgument. The handler parses the token with \<^verbatim>\<open>strconv.Atoi\<close> and then
  slices \<^verbatim>\<open>l[start:]\<close> without comparing \<^verbatim>\<open>start\<close> with the length of the list: a
  token that parses to a number beyond the list, or to a negative number, panics with
  "slice bounds out of range". Here: the token \<^verbatim>\<open>"5"\<close> on a queue with no task, and the
  tokens \<^verbatim>\<open>"2"\<close> and \<^verbatim>\<open>"-1"\<close> on a queue with one task.
\<close>

theorem C5_page_token_out_of_range_panics:
  "ListTasks server1 \<lparr>ListTasks_Parent = queue0, PageSize = 0, PageToken = ''5''\<rparr> = Inl Panic \<and>
   ListTasks server2 \<lparr>ListTasks_Parent = queue0, PageSize = 10, PageToken = ''2''\<rparr> = Inl Panic \<and>
   ListTasks server2 \<lparr>ListTasks_Parent = queue0, PageSize = 10, PageToken = ''-1''\<rparr> = Inl Panic"
  by (simp add: server1_eq server2_eq ListTasks_def sorted_tasks_def fetchTask_def fetchQueue_def
        Atoi_def is_digit_def digit_val_def Let_def)

section \<open>\<^verbatim>\<open>PurgeQueue\<close>, \<^verbatim>\<open>PauseQueue\<close>, \<^verbatim>\<open>ResumeQueue\<close> on a queue that is not live\<close>

lemma queue_handlers_nil:
  assumes "fetchQueue s name = None \<or> fetchQueue s name = Some None"
  shows "PurgeQueue s name = (Inl Panic, s)"
    and "PauseQueue s name = (Inl Panic, s)"
    and "ResumeQueue s name = (Inl Panic, s)"
  using assms
  by (auto simp: PurgeQueue_def PauseQueue_def ResumeQueue_def fetchQueue_unchecked_def)

text \<open>
  Claim C6 says that the three handlers fail with an error, and do not crash, when the
  queue is absent or tombstoned. They fetch the queue without looking at the flag or at
  nil, unlike \<^verbatim>\<open>GetQueue\<close>, \<^verbatim>\<open>DeleteQueue\<close>, \<^verbatim>\<open>ListTasks\<close> and \<^verbatim>\<open>CreateTask\<close>, and
  dereference it: on a new server (the queue is absent) and after \<^verbatim>\<open>DeleteQueue\<close> (the
  queue is a tombstone) each of them panics.
\<close>

theorem C6_queue_handlers_panic_on_nil_queue:
  "fetchQueue NewServer queue0 = None \<and>
   fst (PurgeQueue NewServer queue0) = Inl Panic \<and>
   fst (PauseQueue NewServer queue0) = Inl Panic \<and>
   fst (ResumeQueue NewServer queue0) = Inl Panic \<and>
   fetchQueue (snd (DeleteQueue server1 queue0)) queue0 = Some None \<and>
   fst (PurgeQueue (snd (DeleteQueue server1 queue0)) queue0) = Inl Panic \<and>
   fst (PauseQueue (snd (DeleteQueue server1 queue0)) queue0) = Inl Panic \<and>
   fst (ResumeQueue (snd (DeleteQueue server1 queue0)) queue0) = Inl Panic"
  by (simp add: server1_eq eval_defs)

section \<open>The name patterns of \<^verbatim>\<open>CreateQueue\<close>\<close>

text \<open>
  Claim C7 says that \<^verbatim>\<open>CreateQueue\<close> rejects every name that does not match the anchored
  pattern, in particular a name with extra characters before or after it, and every
  parent that does not match the anchored parent pattern. The patterns of the handler
  have no anchors and \<^verbatim>\<open>regexp.MatchString\<close> looks for a match anywhere in the string:
  the name \<^verbatim>\<open>x/projects/p/locations/l/queues/q/y!\<close> is accepted and a queue is installed
  under it, and so is the parent \<^verbatim>\<open>?projects/p/locations/l?\<close>.
\<close>

theorem C7_create_queue_accepts_unanchored_match:
  "fst (CreateQueue NewServer
          \<lparr>CreateQueue_Parent = parent0,
           CreateQueue_Queue = Some (zero_Queue\<lparr>Queue_Name := ''x/projects/p/locations/l/queues/q/y!''\<rparr>)\<rparr>)
     = Inr 1 \<and>
   fetchQueue (snd (CreateQueue NewServer
          \<lparr>CreateQueue_Parent = parent0,
           CreateQueue_Queue = Some (zero_Queue\<lparr>Queue_Name := ''x/projects/p/locations/l/queues/q/y!''\<rparr>)\<rparr>))
      ''x/projects/p/locations/l/queues/q/y!''
     = Some (Some \<lparr>queue_name = ''x/projects/p/locations/l/queues/q/y!'', queue_state = 0, queue_ts = []\<rparr>) \<and>
   fst (CreateQueue NewServer
          \<lparr>CreateQueue_Parent = ''?projects/p/locations/l?'',
           CreateQueue_Queue = Some (zero_Queue\<lparr>Queue_Name := queue0\<rparr>)\<rparr>)
     = Inr 1"
  by (simp add: eval_defs)

section \<open>What a handler returns: a pointer into the store\<close>

text \<open>
  Claim C8 says that every state returned by \<^verbatim>\<open>CreateQueue\<close>, \<^verbatim>\<open>GetQueue\<close>,
  \<^verbatim>\<open>CreateTask\<close>, \<^verbatim>\<open>GetTask\<close>, \<^verbatim>\<open>ListTasks\<close> and \<^verbatim>\<open>ListQueues\<close> is a clone that later
  internal mutation never changes. \<^verbatim>\<open>GetQueue\<close> returns \<^verbatim>\<open>queue.state\<close> and
  \<^verbatim>\<open>GetTask\<close> returns \<^verbatim>\<open>task.state\<close>, the internal messages themselves, and the two
  list handlers collect the same pointers. On the server with one queue and one task:
  the message that \<^verbatim>\<open>GetQueue\<close> returned reads RUNNING, and PAUSED after
  \<^verbatim>\<open>PauseQueue\<close>; the message that \<^verbatim>\<open>GetTask\<close> returned reads a dispatch count of 0, and
  of 1 after one failed dispatch.
\<close>

theorem C8_get_returns_internal_state:
  "GetQueue server2 queue0 = Inr 0 \<and>
   State (queue_heap server2 0) = RUNNING \<and>
   State (queue_heap (snd (PauseQueue server2 queue0)) 0) = PAUSED \<and>
   GetTask server2 task0 = Inr 2 \<and>
   DispatchCount (task_heap server2 2) = 0 \<and>
   DispatchCount (task_heap (Dispatch server2 task0 0 404) 2) = 1 \<and>
   ListTasks server2 \<lparr>ListTasks_Parent = queue0, PageSize = 0, PageToken = []\<rparr>
     = Inr \<lparr>Tasks = [2], NextPageToken = []\<rparr> \<and>
   ListQueues server2 = Inr [0]"
  by (simp add: server2_eq eval_defs ListQueues_def)

section \<open>Names stay reserved\<close>

text \<open>
  A purge that is a hard reset releases the names of the queue's task map: the entries
  are deleted, and a name can be created again.
\<close>

lemma fetchTask_foldl_hardDeleteTask:
  "name \<in> set l \<Longrightarrow> fetchTask (foldl hardDeleteTask s l) name = None"
proof (induction l arbitrary: s)
  case Nil
  then show ?case by simp
next
  case (Cons k l)
  have gone: "fetchTask s' name = None \<Longrightarrow> fetchTask (foldl hardDeleteTask s' l') name = None" for s' l'
    using set_ts_foldl_hardDeleteTask [of s' l']
    by (auto simp: fetchTask_def map_of_eq_None_iff)
  show ?case
  proof (cases "name = k")
    case True
    have "fetchTask (hardDeleteTask s k) name = None"
      by (simp add: True fetchTask_def hardDeleteTask_def delete_conv')
    then show ?thesis by (simp add: gone)
  next
    case False
    with Cons show ?thesis by simp
  qed
qed

lemma hard_reset_releases:
  assumes "HardResetOnPurgeQueue (Options s)" and "fetchQueue s qname = Some (Some queue)"
    and "name \<in> fst ` set (queue_ts queue)"
  shows "fetchTask (snd (PurgeQueue s qname)) name = None"
  using assms
  by (simp add: PurgeQueue_def fetchQueue_unchecked_def Queue_HardReset_def fetchTask_foldl_hardDeleteTask)

lemma hard_reset_releases_task0:
  "fetchTask (snd (PurgeQueue (server2\<lparr>Options := \<lparr>HardResetOnPurgeQueue = True\<rparr>\<rparr>) queue0)) task0 = None \<and>
   fst (CreateTask (snd (PurgeQueue (server2\<lparr>Options := \<lparr>HardResetOnPurgeQueue = True\<rparr>\<rparr>) queue0))
          create_task0 ''8'' 1) = Inr 5"
  by (simp add: server2_eq eval_defs eval_nat_numeral)

text \<open>
  Claim C1, as stated: every later \<^verbatim>\<open>CreateTask\<close> that supplies a name once accepted
  fails with AlreadyExists. It fails, but not always with that code: the handler looks
  at the parent queue first. After \<^verbatim>\<open>DeleteQueue\<close> of its queue, the very request that
  was accepted fails with FailedPrecondition.
\<close>

theorem C1_deleted_queue_counterexample:
  "fst (CreateTask server1 create_task0 ''7'' 0) = Inr 3 \<and>
   server2 = snd (CreateTask server1 create_task0 ''7'' 0) \<and>
   fst (CreateTask (run server2 [E_DeleteQueue queue0]) create_task0 ''8'' 1)
     = Inl (Status FailedPrecondition) \<and>
   fst (CreateTask (run server2 [E_DeleteQueue queue0]) create_task0 ''8'' 1)
     \<noteq> Inl (Status AlreadyExists)"
proof -
  have "fetchQueue (run server2 [E_DeleteQueue queue0]) queue0 = Some None"
    by (simp add: server2_eq eval_defs)
  then have "fst (CreateTask (run server2 [E_DeleteQueue queue0]) create_task0 ''8'' 1)
     = Inl (Status FailedPrecondition)"
    by (simp add: CreateTask_def create_task0_def)
  then show ?thesis
    by (simp add: CreateTask_server1)
qed

text \<open>
  Claim C1, amended. Let \<^verbatim>\<open>CreateTask\<close> accept a name (supplied or generated), on a
  server whose purge is not a hard reset. After any history of requests and dispatches,
  a \<^verbatim>\<open>CreateTask\<close> that supplies this name fails and changes nothing: the tombstone
  that the removal callback leaves keeps the name in the task map. The code is
  AlreadyExists when the parent queue of the request is live and the name passes the
  format and prefix checks, NotFound or FailedPrecondition when the parent queue is
  absent or tombstoned, and InvalidArgument when the name fails a check.
\<close>

theorem C1_accepted_name_stays_reserved:
  assumes accepted: "CreateTask s req rnd now = (Inr p, s')"
    and nohard: "\<not> HardResetOnPurgeQueue (Options s)"
    and again: "CreateTask_Task req2 = Some t2" "Task_Name t2 = Task_Name (task_heap s' p)"
  shows "CreateTask (run s' evs) req2 rnd2 now2 =
           (Inl (Status (case fetchQueue (run s' evs) (CreateTask_Parent req2) of
                           None \<Rightarrow> NotFound
                         | Some None \<Rightarrow> FailedPrecondition
                         | Some (Some queue) \<Rightarrow>
                             if isValidTaskName (Task_Name t2) \<and>
                                HasPrefix (Task_Name t2) (CreateTask_Parent req2 @ ''/tasks/'')
                             then AlreadyExists else InvalidArgument)),
            run s' evs)"
proof -
  have *: "Task_Name t2 \<noteq> [] \<and> Task_Name t2 \<in> fst ` set (ts s') \<and> Options s' = Options s"
  proof (cases rule: CreateTask_cases [of s req rnd now])
    case (fail e)
    with accepted show ?thesis by simp
  next
    case (ok queue t s'')
    with accepted have eq: "s'' = s'" "p = Suc (next_addr s)" by simp_all
    from ok(10) have "Task_Name t2 = (if Task_Name t = [] then queue_name queue @ ''/tasks/'' @ rnd else Task_Name t)"
      unfolding eq again(2) by simp
    moreover from ok(5) have "(if Task_Name t = [] then queue_name queue @ ''/tasks/'' @ rnd else Task_Name t)
        \<in> fst ` set (ts s')"
      unfolding eq by (simp add: dom_update)
    ultimately show ?thesis using ok(6) eq by auto
  qed
  then have "\<not> HardResetOnPurgeQueue (Options s')" using nohard by simp
  from run_keys [OF this, of evs] * have "Task_Name t2 \<in> fst ` set (ts (run s' evs))"
    by blast
  then have "fetchTask (run s' evs) (Task_Name t2) \<noteq> None"
    by (rule iffD2 [OF fetchTask_keys])
  with * again(1) show ?thesis
    by (simp add: CreateTask_def Let_def split: option.splits)
qed

theorem C1_accepted_name_stays_reserved_witness:
  "CreateTask server1 create_task0 ''7'' 0 = (Inr 3, server2) \<and>
   \<not> HardResetOnPurgeQueue (Options server1) \<and>
   CreateTask_Task create_task0 = Some (zero_Task\<lparr>Task_Name := task0\<rparr>) \<and>
   Task_Name (zero_Task\<lparr>Task_Name := task0\<rparr>) = Task_Name (task_heap server2 3) \<and>
   fetchTask (run server2 [E_Dispatch task0 0 200]) task0 = Some None \<and>
   fst (CreateTask (run server2 [E_Dispatch task0 0 200]) create_task0 ''8'' 1) = Inl (Status AlreadyExists)"
proof -
  have b: "\<not> HardResetOnPurgeQueue (Options server1)"
    by (simp add: server1_eq)
  have c: "CreateTask_Task create_task0 = Some (zero_Task\<lparr>Task_Name := task0\<rparr>)"
    by (simp add: create_task0_def)
  have d: "Task_Name (zero_Task\<lparr>Task_Name := task0\<rparr>) = Task_Name (task_heap server2 3)"
    by (simp add: server2_eq)
  have e: "fetchTask (run server2 [E_Dispatch task0 0 200]) task0 = Some None"
    by (simp add: server2_completed fetchTask_def)
  have f: "fetchQueue (run server2 [E_Dispatch task0 0 200]) (CreateTask_Parent create_task0)
             = Some (Some \<lparr>queue_name = queue0, queue_state = 0, queue_ts = [(task0, None)]\<rparr>)"
    by (simp add: server2_completed fetchQueue_def create_task0_def)
  have g: "isValidTaskName task0 \<and> HasPrefix task0 (queue0 @ ''/tasks/'')"
    by (simp add: eval_defs)
  from C1_accepted_name_stays_reserved [OF CreateTask_server1 b c d, of "[E_Dispatch task0 0 200]" "''8''" 1]
  show ?thesis
    using CreateTask_server1 b c d e f g by (simp add: create_task0_def)
qed

section \<open>Delete, then get\<close>

text \<open>
  Claim C3, as stated: after a successful \<^verbatim>\<open>DeleteTask\<close> of a live task, \<^verbatim>\<open>GetTask\<close>
  returns NotFound. The callback leaves a tombstone, for which \<^verbatim>\<open>GetTask\<close> answers
  FailedPrecondition ("The task no longer exists, though a task with this name existed
  recently").
\<close>

theorem C3_delete_then_get_counterexample:
  "fetchTask server2 task0 = Some (Some \<lparr>task_state = 2, task_queue = queue0\<rparr>) \<and>
   fst (DeleteTask server2 task0) = Inr () \<and>
   GetTask (snd (DeleteTask server2 task0)) task0 = Inl (Status FailedPrecondition) \<and>
   GetTask (snd (DeleteTask server2 task0)) task0 \<noteq> Inl (Status NotFound)"
  by (simp add: server2_deleted_ts GetTask_def fetchTask_def)
     (simp add: server2_eq DeleteTask_def fetchTask_def)

text \<open>
  Claim C3, amended. In every state that the server reaches from its start, a
  \<^verbatim>\<open>DeleteTask\<close> of a live task succeeds and a \<^verbatim>\<open>GetTask\<close> of the same name right after
  it returns FailedPrecondition.
\<close>

theorem C3_delete_then_get_failed_precondition:
  assumes "s = run (NewServer\<lparr>Options := opts\<rparr>) evs"
    and "fetchTask s name = Some (Some task)"
  shows "fst (DeleteTask s name) = Inr () \<and>
         GetTask (snd (DeleteTask s name)) name = Inl (Status FailedPrecondition)"
proof -
  have inv: "registry_inv s"
    unfolding assms(1) by (rule reachable_inv)
  have "(name, Some task) \<in> set (ts s)"
    using assms(2) unfolding fetchTask_def by (rule map_of_SomeD)
  with inv have name: "Task_Name (task_heap s (task_state task)) = name"
    unfolding registry_inv_iff by blast
  have "DeleteTask s name = (Inr (), taskDone s task)"
    using assms(2) by (simp add: DeleteTask_def Task_Delete_def)
  moreover have "fetchTask (taskDone s task) name = Some None"
    by (simp add: fetchTask_def name update_conv')
  ultimately show ?thesis
    by (simp add: GetTask_def)
qed

theorem C3_delete_then_get_failed_precondition_witness:
  "server2 = run (NewServer\<lparr>Options := \<lparr>HardResetOnPurgeQueue = False\<rparr>\<rparr>)
               [E_CreateQueue create_queue0, E_CreateTask create_task0 ''7'' 0] \<and>
   fetchTask server2 task0 = Some (Some \<lparr>task_state = 2, task_queue = queue0\<rparr>) \<and>
   fst (DeleteTask server2 task0) = Inr () \<and>
   GetTask (snd (DeleteTask server2 task0)) task0 = Inl (Status FailedPrecondition)"
proof -
  have a: "server2 = run (NewServer\<lparr>Options := \<lparr>HardResetOnPurgeQueue = False\<rparr>\<rparr>)
               [E_CreateQueue create_queue0, E_CreateTask create_task0 ''7'' 0]"
    by (simp add: server2_def NewServer_def)
  have b: "fetchTask server2 task0 = Some (Some \<lparr>task_state = 2, task_queue = queue0\<rparr>)"
    by (simp add: server2_eq fetchTask_def)
  from C3_delete_then_get_failed_precondition [OF a b] a b show ?thesis
    by simp
qed

section \<open>Generated task names\<close>

text \<open>
  Claim C10. \<^verbatim>\<open>CreateTask\<close> with an empty task name never returns AlreadyExists. When
  the parent queue is live it succeeds whatever the task map holds: none of the checks
  on the name is made, the name is the queue's name, \<^verbatim>\<open>/tasks/\<close> and the generated
  digits, and the task map holds the new task under this name afterwards, in place of
  any entry that was there.
\<close>

theorem C10_generated_name_installed:
  assumes "CreateTask_Task req = Some t" and "Task_Name t = []"
  shows "fst (CreateTask s req rnd now) \<noteq> Inl (Status AlreadyExists) \<and>
         (\<forall>queue. fetchQueue s (CreateTask_Parent req) = Some (Some queue) \<longrightarrow>
            fst (CreateTask s req rnd now) = Inr (Suc (next_addr s)) \<and>
            Task_Name (task_heap (snd (CreateTask s req rnd now)) (Suc (next_addr s)))
              = queue_name queue @ ''/tasks/'' @ rnd \<and>
            fetchTask (snd (CreateTask s req rnd now)) (queue_name queue @ ''/tasks/'' @ rnd)
              = Some (Some \<lparr>task_state = next_addr s, task_queue = queue_name queue\<rparr>))"
  using assms
  by (auto simp: CreateTask_def Let_def Queue_NewTask_def clone_Task_def setTask_def fetchTask_def
        update_conv' split: option.splits)

theorem C10_generated_name_installed_witness:
  "CreateTask_Task \<lparr>CreateTask_Parent = queue0, CreateTask_Task = Some zero_Task\<rparr> = Some zero_Task \<and>
   Task_Name zero_Task = [] \<and>
   fetchQueue server2 queue0 = Some (Some \<lparr>queue_name = queue0, queue_state = 0,
       queue_ts = [(task0, Some \<lparr>task_state = 2, task_queue = queue0\<rparr>)]\<rparr>) \<and>
   queue0 @ ''/tasks/'' @ ''x'' = task0 \<and>
   fetchTask server2 task0 = Some (Some \<lparr>task_state = 2, task_queue = queue0\<rparr>) \<and>
   fst (CreateTask server2 \<lparr>CreateTask_Parent = queue0, CreateTask_Task = Some zero_Task\<rparr> ''x'' 1) = Inr 5 \<and>
   fetchTask (snd (CreateTask server2 \<lparr>CreateTask_Parent = queue0, CreateTask_Task = Some zero_Task\<rparr> ''x'' 1)) task0
     = Some (Some \<lparr>task_state = 4, task_queue = queue0\<rparr>)"
proof -
  have a: "CreateTask_Task \<lparr>CreateTask_Parent = queue0, CreateTask_Task = Some zero_Task\<rparr> = Some zero_Task"
    by simp
  have b: "Task_Name zero_Task = []"
    by (simp add: zero_Task_def)
  have c: "fetchQueue server2 queue0 = Some (Some \<lparr>queue_name = queue0, queue_state = 0,
       queue_ts = [(task0, Some \<lparr>task_state = 2, task_queue = queue0\<rparr>)]\<rparr>)"
    by (simp add: server2_eq fetchQueue_def)
  have d: "queue0 @ ''/tasks/'' @ ''x'' = task0"
    by (simp add: queue0_def task0_def)
  have e: "fetchTask server2 task0 = Some (Some \<lparr>task_state = 2, task_queue = queue0\<rparr>)"
    by (simp add: server2_eq fetchTask_def)
  have f: "next_addr server2 = 4"
    by (simp add: server2_eq)
  from C10_generated_name_installed [OF a b, of server2 "''x''" 1] c
  show ?thesis
    using a b d e f by (simp add: eval_nat_numeral)
qed

section \<open>The retry schedule\<close>

text \<open>
  One failed dispatch that does not exhaust the policy: the counters go up by one and
  the scheduled time moves by the delay for the index of the dispatch that failed.
\<close>

lemma attempt_failure:
  assumes "\<not> (200 \<le> status \<and> status \<le> 299)"
    and "DispatchCount st = int n" and "int n + 1 < MaxAttempts P" and "MaxRetryDuration P = None"
    and "ScheduleTime st = Some t"
  shows "attempt P st now status =
           (st\<lparr>FirstAttempt := (case FirstAttempt st of None \<Rightarrow> Some now | Some f \<Rightarrow> Some f),
               DispatchCount := int n + 1, ResponseCount := ResponseCount st + 1,
               ScheduleTime := Some (t + retryDelay P n)\<rparr>, False)"
  using assms by (simp add: attempt_def retryDone_def Let_def)

lemma retryDelay_default:
  "retryDelay defaultRetryConfig n = (if n < 16 then 100 * millisecond * 2 ^ n else 3600 * second)"
proof (cases "n < 16")
  case True
  then have m: "nat (min (int n) 16) = n" by simp
  from True have "(2::int) ^ n \<le> 2 ^ 15" by (intro power_increasing) simp_all
  moreover have "(1::int) \<le> 2 ^ n" by simp
  ultimately show ?thesis
    using True unfolding retryDelay_def clamp_def defaultRetryConfig_def millisecond_def second_def
    by (simp add: m)
next
  case False
  then have m: "nat (min (int n) 16) = 16" by simp
  show ?thesis
    using False unfolding retryDelay_def clamp_def defaultRetryConfig_def millisecond_def second_def
    by (simp add: m)
qed

lemma retryDelay_default_formula:
  "retryDelay defaultRetryConfig n =
     clamp (100 * millisecond * 2 ^ min n 16) (100 * millisecond) (3600 * second)"
proof -
  have "nat (min (int n) 16) = min n 16" by simp
  then show ?thesis
    by (simp add: retryDelay_def defaultRetryConfig_def)
qed

lemma server1_task_created:
  "snd (CreateTask server1 create_task0 rnd now) =
     server1\<lparr>qs := [(queue0, Some \<lparr>queue_name = queue0, queue_state = 0,
                           queue_ts = [(task0, Some \<lparr>task_state = 2, task_queue = queue0\<rparr>)]\<rparr>)],
      ts := [(task0, Some \<lparr>task_state = 2, task_queue = queue0\<rparr>)],
      task_heap := (\<lambda>_. zero_Task)
        (2 := \<lparr>Task_Name = task0, Url = [], ScheduleTime = Some now, DispatchCount = 0,
                ResponseCount = 0, FirstAttempt = None\<rparr>,
         3 := \<lparr>Task_Name = task0, Url = [], ScheduleTime = Some now, DispatchCount = 0,
                ResponseCount = 0, FirstAttempt = None\<rparr>),
      next_addr := 4\<rparr>"
  by (simp add: server1_eq eval_defs eval_nat_numeral)

lemma four_dispatches:
  "dispatch_times 4 (snd (CreateTask server1 create_task0 rnd now)) task0 404 =
     [now, now + 100 * millisecond, now + 300 * millisecond, now + 700 * millisecond]"
  unfolding server1_task_created
  by (simp add: server1_eq eval_defs eval_nat_numeral)

text \<open>
  Claim C9. The default retry policy is minBackoff = 100ms, maxBackoff = 3600s,
  maxDoublings = 16, maxAttempts = 100. Under it the delay that the policy gives for the
  attempt index \<open>n\<close> is \<^verbatim>\<open>clamp(minBackoff * 2^min(n, maxDoublings), minBackoff, maxBackoff)\<close>,
  which is 100ms times \<open>2^n\<close> below 16 and 3600s from 16 on. The first dispatch
  of a task fires at the instant of its creation (delay 0), and when each dispatch is
  answered with 404, the first four dispatches are 0, 100ms, 200ms and 400ms apart.
  The index that the policy is given after a failed dispatch is that of the dispatch
  that failed.
\<close>

theorem C9_default_backoff:
  "MinBackoff defaultRetryConfig = 100 * millisecond \<and>
   MaxBackoff defaultRetryConfig = 3600 * second \<and>
   MaxDoublings defaultRetryConfig = 16 \<and>
   MaxAttempts defaultRetryConfig = 100 \<and>
   (\<forall>n. retryDelay defaultRetryConfig n =
          clamp (100 * millisecond * 2 ^ min n 16) (100 * millisecond) (3600 * second)) \<and>
   (\<forall>n. retryDelay defaultRetryConfig n = (if n < 16 then 100 * millisecond * 2 ^ n else 3600 * second)) \<and>
   dispatch_times 4 (snd (CreateTask server1 create_task0 rnd now)) task0 404 =
     [now, now + 100 * millisecond, now + 300 * millisecond, now + 700 * millisecond] \<and>
   delays now (dispatch_times 4 (snd (CreateTask server1 create_task0 rnd now)) task0 404) =
     [0, 100 * millisecond, 200 * millisecond, 400 * millisecond]"
proof -
  have "delays now [now, now + 100 * millisecond, now + 300 * millisecond, now + 700 * millisecond]
          = [0, 100 * millisecond, 200 * millisecond, 400 * millisecond]"
    by simp
  then show ?thesis
    using retryDelay_default retryDelay_default_formula four_dispatches
    by (simp add: defaultRetryConfig_def)
qed

section \<open>Decimal page tokens\<close>

lemma digit_char_facts:
  assumes "d < 10"
  shows "is_digit (digit_char d)" and "digit_val (digit_char d) = int d"
proof -
  from assms consider "d = 0" | "d = 1" | "d = 2" | "d = 3" | "d = 4" | "d = 5" | "d = 6" | "d = 7"
    | "d = 8" | "d = 9" by atomize_elim arith
  then have "is_digit (digit_char d) \<and> digit_val (digit_char d) = int d"
    by cases (simp_all add: digit_char_def is_digit_def digit_val_def)
  then show "is_digit (digit_char d)" and "digit_val (digit_char d) = int d" by simp_all
qed

lemma nat_digits_all_digits: "list_all is_digit (nat_digits n)"
proof (induction n rule: nat_digits.induct)
  case (1 n)
  show ?case
  proof (cases "n < 10")
    case True
    then show ?thesis by (simp add: nat_digits.simps [of n] digit_char_facts)
  next
    case False
    with 1 show ?thesis by (simp add: nat_digits.simps [of n] digit_char_facts)
  qed
qed

lemma nat_digits_nonempty: "nat_digits n \<noteq> []"
  by (simp add: nat_digits.simps [of n])

lemma digits_value_append: "digits_value a (xs @ ys) = digits_value (digits_value a xs) ys"
  by (induction xs arbitrary: a) simp_all

lemma digits_value_nat_digits: "digits_value 0 (nat_digits n) = int n"
proof (induction n rule: nat_digits.induct)
  case (1 n)
  show ?case
  proof (cases "n < 10")
    case True
    then show ?thesis by (simp add: nat_digits.simps [of n] digit_char_facts)
  next
    case False
    have "digits_value 0 (nat_digits n) = int (n div 10) * 10 + int (n mod 10)"
      using False 1 by (simp add: nat_digits.simps [of n] digits_value_append digit_char_facts)
    also have "\<dots> = int n" by presburger
    finally show ?thesis .
  qed
qed

lemma is_digit_not_sign: "is_digit c \<Longrightarrow> c \<noteq> CHR ''-'' \<and> c \<noteq> CHR ''+''"
  by (auto simp: is_digit_def)

lemma Itoa_nonempty: "Itoa i \<noteq> []"
  by (simp add: Itoa_def nat_digits_nonempty)

lemma Atoi_Itoa:
  assumes "0 \<le> i" and "i < 2 ^ 63"
  shows "Atoi (Itoa i) = Some i"
proof -
  obtain c r where cr: "nat_digits (nat i) = c # r"
    using nat_digits_nonempty [of "nat i"] by (cases "nat_digits (nat i)") auto
  have all: "list_all is_digit (c # r)"
    using nat_digits_all_digits [of "nat i"] cr by simp
  then have "c \<noteq> CHR ''-''" "c \<noteq> CHR ''+''"
    using is_digit_not_sign [of c] by simp_all
  moreover have "digits_value 0 (c # r) = i"
    using digits_value_nat_digits [of "nat i"] cr assms(1) by simp
  ultimately show ?thesis
    using assms all cr by (simp add: Atoi_def Itoa_def Let_def)
qed

section \<open>The pages of \<^verbatim>\<open>ListTasks\<close>\<close>

lemma effective_page_size_bounds:
  assumes "0 \<le> pageSize" and "pageSize \<le> 1000"
  shows "1 \<le> effective_page_size pageSize" and "effective_page_size pageSize \<le> 1000"
  using assms by (simp_all add: effective_page_size_def)

lemma ListTasks_page:
  assumes q: "fetchQueue s parent = Some (Some queue)"
    and ps: "0 \<le> pageSize" "pageSize \<le> 1000"
    and start: "start \<le> length (sorted_tasks s queue)"
    and len: "int (length (sorted_tasks s queue)) < 2 ^ 63"
    and tok: "token = Itoa (int start) \<or> (start = 0 \<and> token = [])"
  shows "ListTasks s \<lparr>ListTasks_Parent = parent, PageSize = pageSize, PageToken = token\<rparr> =
     Inr \<lparr>Tasks = map task_state (take (nat (effective_page_size pageSize))
                                      (drop start (sorted_tasks s queue))),
          NextPageToken =
            (if int start + effective_page_size pageSize < int (length (sorted_tasks s queue))
             then Itoa (int start + effective_page_size pageSize) else [])\<rparr>"
proof -
  let ?L = "sorted_tasks s queue"
  let ?P = "effective_page_size pageSize"
  have parse: "(token = [] \<and> start = 0) \<or> (token \<noteq> [] \<and> Atoi token = Some (int start))"
  proof (cases "token = []")
    case True
    with tok Itoa_nonempty [of "int start"] have "start = 0" by auto
    with True show ?thesis by simp
  next
    case False
    with tok have "token = Itoa (int start)" by simp
    moreover have "Atoi (Itoa (int start)) = Some (int start)"
      by (rule Atoi_Itoa) (use start len in simp_all)
    ultimately show ?thesis using False by simp
  qed
  have P: "1 \<le> ?P" "?P \<le> 1000"
    using effective_page_size_bounds [OF ps] by simp_all
  have pg: "page (int start) (drop start ?L) ?P =
     \<lparr>Tasks = map task_state (take (nat ?P) (drop start ?L)),
      NextPageToken = (if int start + ?P < int (length ?L) then Itoa (int start + ?P) else [])\<rparr>"
  proof (cases "int start + ?P < int (length ?L)")
    case True
    then show ?thesis using start by (simp add: page_def)
  next
    case False
    then have "length (drop start ?L) \<le> nat ?P" using start by simp
    then have "take (nat ?P) (drop start ?L) = drop start ?L" by (rule take_all)
    then show ?thesis using False start by (simp add: page_def)
  qed
  have "ListTasks s \<lparr>ListTasks_Parent = parent, PageSize = pageSize, PageToken = token\<rparr> =
          Inr (page (int start) (drop start ?L) ?P)"
    using q parse start ps
    by (auto simp: ListTasks_def Let_def effective_page_size_def)
  with pg show ?thesis by simp
qed

lemma follow_pages_from:
  assumes q: "fetchQueue s parent = Some (Some queue)"
    and ps: "0 \<le> pageSize" "pageSize \<le> 1000"
    and len: "int (length (sorted_tasks s queue)) < 2 ^ 63"
  shows "start \<le> length (sorted_tasks s queue) \<Longrightarrow>
         token = Itoa (int start) \<or> (start = 0 \<and> token = []) \<Longrightarrow>
         length (sorted_tasks s queue) - start < fuel \<Longrightarrow>
         follow_pages fuel s parent pageSize token = Some (map task_state (drop start (sorted_tasks s queue)))"
proof (induction fuel arbitrary: start token)
  case 0
  then show ?case by simp
next
  case (Suc n)
  let ?L = "sorted_tasks s queue"
  let ?P = "effective_page_size pageSize"
  have P: "1 \<le> ?P" "?P \<le> 1000"
    using effective_page_size_bounds [OF ps] by simp_all
  note pg = ListTasks_page [OF q ps Suc.prems(1) len Suc.prems(2)]
  show ?case
  proof (cases "int start + ?P < int (length ?L)")
    case False
    then have "length (drop start ?L) \<le> nat ?P" using Suc.prems(1) by simp
    then have "take (nat ?P) (drop start ?L) = drop start ?L" by (rule take_all)
    with False pg show ?thesis by simp
  next
    case True
    let ?start' = "start + nat ?P"
    have s': "int ?start' = int start + ?P" using P by simp
    have le: "?start' \<le> length ?L" using True P by linarith
    have fuel: "length ?L - ?start' < n" using Suc.prems(3) True P by linarith
    have "Itoa (int start + ?P) = Itoa (int ?start') \<or> (?start' = 0 \<and> Itoa (int start + ?P) = [])"
      unfolding s' by (rule disjI1) (rule refl)
    then have ih: "follow_pages n s parent pageSize (Itoa (int start + ?P)) = Some (map task_state (drop ?start' ?L))"
      by (rule Suc.IH [OF le _ fuel])
    moreover have "take (nat ?P) (drop start ?L) @ drop ?start' ?L = drop start ?L"
      by (metis add.commute append_take_drop_id drop_drop)
    then have "map task_state (take (nat ?P) (drop start ?L)) @ map task_state (drop ?start' ?L)
                 = map task_state (drop start ?L)"
      by (metis map_append)
    ultimately show ?thesis
      using True pg Itoa_nonempty [of "int start + ?P"] by simp
  qed
qed

lemma length_live: "length (live al) \<le> length al"
  by (induction al rule: live.induct) simp_all

lemma ListTasks_any_page:
  assumes q: "fetchQueue s (ListTasks_Parent req) = Some (Some queue)"
    and r: "ListTasks s req = Inr r"
  shows "\<exists>m n. Tasks r = map task_state (take m (drop n (sorted_tasks s queue)))"
proof -
  let ?L = "sorted_tasks s queue"
  let ?tok = "if PageToken req \<noteq> [] then Atoi (PageToken req) else Some 0"
  from r q obtain start where p: "?tok = Some start"
    by (cases ?tok) (auto simp: ListTasks_def Let_def)
  with r q have "r = page start (drop (nat start) ?L) (effective_page_size (PageSize req))"
    by (auto simp: ListTasks_def Let_def effective_page_size_def split: if_splits)
  then have "Tasks r = map task_state (take (nat (effective_page_size (PageSize req))) (drop (nat start) ?L)) \<or>
             Tasks r = map task_state (take (length (drop (nat start) ?L)) (drop (nat start) ?L))"
    by (simp add: page_def split: if_splits)
  then show ?thesis by blast
qed

lemma set_live: "set (live al) = {v. \<exists>k. (k, Some v) \<in> set al}"
  by (induction al rule: live.induct) auto

text \<open>
  The sorted list does not depend on the order in which \<^verbatim>\<open>range\<close> walks the map, as
  long as no two tasks bear the same name: a stable sort of two arrangements of the same
  elements, with distinct keys, gives the same list.
\<close>

lemma filter_eq_same_mset:
  assumes "mset xs = mset ys"
  shows "filter (\<lambda>x. k = x) xs = filter (\<lambda>x. k = x) ys"
proof -
  have "filter (\<lambda>x. k = x) zs = replicate (count (mset zs) k) k" for zs :: "'a list"
    by (induction zs) auto
  with assms show ?thesis by simp
qed

lemma sort_key_order_independent:
  fixes f :: "'a \<Rightarrow> 'b::linorder"
  assumes m: "mset xs = mset ys" and inj: "inj_on f (set xs)"
  shows "sort_key f xs = sort_key f ys"
proof (rule properties_for_sort_key)
  show "mset (sort_key f ys) = mset xs" using m by simp
  show "sorted (map f (sort_key f ys))" by simp
  fix k assume "k \<in> set (sort_key f ys)"
  then have k: "k \<in> set xs" using m by (metis set_sort mset_eq_setD)
  have s: "set ys = set xs" using m by (metis mset_eq_setD)
  have "filter (\<lambda>x. f k = f x) (sort_key f ys) = filter (\<lambda>x. f x = f k) (sort_key f ys)"
    by (simp add: eq_commute)
  also have "\<dots> = filter (\<lambda>x. f x = f k) ys" by (rule sort_key_stable)
  also have "\<dots> = filter (\<lambda>x. k = x) ys"
    by (rule filter_cong) (use inj k s in \<open>auto dest: inj_onD\<close>)
  also have "\<dots> = filter (\<lambda>x. k = x) xs" by (rule filter_eq_same_mset [OF m [symmetric]])
  also have "\<dots> = filter (\<lambda>x. f k = f x) xs"
    by (rule filter_cong) (use inj k in \<open>auto dest: inj_onD\<close>)
  finally show "filter (\<lambda>x. f k = f x) (sort_key f ys) = filter (\<lambda>x. f k = f x) xs" .
qed

lemma sorted_tasks_order_independent:
  assumes "mset (live (queue_ts queue)) = mset (live (queue_ts queue'))"
    and "inj_on (\<lambda>task. Task_Name (task_heap s (task_state task))) (set (live (queue_ts queue)))"
  shows "sorted_tasks s queue = sorted_tasks s queue'"
  unfolding sorted_tasks_def using assms by (rule sort_key_order_independent)

lemma server3_queue:
  "fetchQueue server3 queue0 =
     Some (Some \<lparr>queue_name = queue0, queue_state = 0,
                 queue_ts = [(queue0 @ ''/tasks/c'', Some \<lparr>task_state = 2, task_queue = queue0\<rparr>),
                             (queue0 @ ''/tasks/a'', Some \<lparr>task_state = 4, task_queue = queue0\<rparr>),
                             (queue0 @ ''/tasks/b'', Some \<lparr>task_state = 6, task_queue = queue0\<rparr>)]\<rparr>)"
  by (simp add: server3_def create_named_def eval_defs eval_nat_numeral)

lemma server3_names:
  "Task_Name (task_heap server3 2) = queue0 @ ''/tasks/c''"
  "Task_Name (task_heap server3 4) = queue0 @ ''/tasks/a''"
  "Task_Name (task_heap server3 6) = queue0 @ ''/tasks/b''"
  by (simp_all add: server3_def create_named_def eval_defs eval_nat_numeral)

lemma server3_sorted:
  "sorted_tasks server3 \<lparr>queue_name = queue0, queue_state = 0,
                 queue_ts = [(queue0 @ ''/tasks/c'', Some \<lparr>task_state = 2, task_queue = queue0\<rparr>),
                             (queue0 @ ''/tasks/a'', Some \<lparr>task_state = 4, task_queue = queue0\<rparr>),
                             (queue0 @ ''/tasks/b'', Some \<lparr>task_state = 6, task_queue = queue0\<rparr>)]\<rparr>
    = [\<lparr>task_state = 4, task_queue = queue0\<rparr>, \<lparr>task_state = 6, task_queue = queue0\<rparr>,
       \<lparr>task_state = 2, task_queue = queue0\<rparr>]"
  by (simp add: sorted_tasks_def server3_names) (simp add: queue0_def)

lemma Itoa_2: "Itoa 2 = ''2''"
  by (simp add: Itoa_def nat_digits.simps digit_char_def)

text \<open>
  Claim C4. For a live queue, a page size from 0 to 1000 and a task map within the range
  of \<^verbatim>\<open>int\<close>: every page that \<^verbatim>\<open>ListTasks\<close> returns holds only states of live tasks of
  that queue, in ascending order of name; the page asked for with the offset \<open>start\<close>
  (the empty token for 0) is the next \<open>effective_page_size\<close> entries of the sorted
  list from \<open>start\<close> on, and its token is empty exactly when the page reaches the end
  of the list, and the decimal next offset otherwise; following the tokens from the
  empty token on, the pages concatenate to the states of the whole sorted list, which
  holds the live tasks of the queue, each once.
\<close>

theorem C4_list_tasks_pages:
  assumes q: "fetchQueue s parent = Some (Some queue)"
    and ps: "0 \<le> pageSize" "pageSize \<le> 1000"
    and len: "int (length (queue_ts queue)) < 2 ^ 63"
  shows
    "(\<forall>req r. ListTasks_Parent req = parent \<longrightarrow> ListTasks s req = Inr r \<longrightarrow>
        set (Tasks r) \<subseteq> task_state ` set (live (queue_ts queue)) \<and>
        sorted (map (\<lambda>a. Task_Name (task_heap s a)) (Tasks r))) \<and>
     (\<forall>start \<le> length (sorted_tasks s queue).
        ListTasks s \<lparr>ListTasks_Parent = parent, PageSize = pageSize,
                     PageToken = (if start = 0 then [] else Itoa (int start))\<rparr> =
          Inr \<lparr>Tasks = map task_state (take (nat (effective_page_size pageSize))
                                           (drop start (sorted_tasks s queue))),
               NextPageToken =
                 (if int start + effective_page_size pageSize < int (length (sorted_tasks s queue))
                  then Itoa (int start + effective_page_size pageSize) else [])\<rparr> \<and>
        Itoa (int start + effective_page_size pageSize) \<noteq> []) \<and>
     follow_pages (Suc (length (sorted_tasks s queue))) s parent pageSize [] =
       Some (map task_state (sorted_tasks s queue)) \<and>
     mset (sorted_tasks s queue) = mset (live (queue_ts queue)) \<and>
     sorted (map (\<lambda>task. Task_Name (task_heap s (task_state task))) (sorted_tasks s queue))"
proof -
  let ?L = "sorted_tasks s queue"
  let ?name = "\<lambda>task. Task_Name (task_heap s (task_state task))"
  have len': "int (length ?L) < 2 ^ 63"
    using len length_live [of "queue_ts queue"] by (simp add: sorted_tasks_def)
  have srt: "sorted (map ?name ?L)"
    by (simp add: sorted_tasks_def)
  have one: "set (Tasks r) \<subseteq> task_state ` set (live (queue_ts queue)) \<and>
             sorted (map (\<lambda>a. Task_Name (task_heap s a)) (Tasks r))"
    if "ListTasks_Parent req = parent" and "ListTasks s req = Inr r" for req r
  proof -
    from ListTasks_any_page [of s req queue r] that q
    obtain m n where t: "Tasks r = map task_state (take m (drop n ?L))" by auto
    have "set (take m (drop n ?L)) \<subseteq> set (live (queue_ts queue))"
      using set_take_subset [of m "drop n ?L"] set_drop_subset [of n ?L]
      by (auto simp: sorted_tasks_def)
    then have a: "set (Tasks r) \<subseteq> task_state ` set (live (queue_ts queue))"
      unfolding t by auto
    have "map (\<lambda>a. Task_Name (task_heap s a)) (Tasks r) = take m (drop n (map ?name ?L))"
      unfolding t by (simp add: take_map drop_map comp_def)
    moreover have "sorted (take m (drop n (map ?name ?L)))"
      using srt by simp
    ultimately show ?thesis using a by simp
  qed
  have two: "ListTasks s \<lparr>ListTasks_Parent = parent, PageSize = pageSize,
                     PageToken = (if start = 0 then [] else Itoa (int start))\<rparr> =
          Inr \<lparr>Tasks = map task_state (take (nat (effective_page_size pageSize)) (drop start ?L)),
               NextPageToken =
                 (if int start + effective_page_size pageSize < int (length ?L)
                  then Itoa (int start + effective_page_size pageSize) else [])\<rparr>"
    if "start \<le> length ?L" for start
    by (rule ListTasks_page [OF q ps that len']) simp
  have three: "follow_pages (Suc (length ?L)) s parent pageSize [] = Some (map task_state ?L)"
    using follow_pages_from [OF q ps len', of 0 "[]" "Suc (length ?L)"] by simp
  have four: "mset ?L = mset (live (queue_ts queue))"
    by (simp add: sorted_tasks_def)
  from one two three four srt Itoa_nonempty show ?thesis
    by blast
qed

theorem C4_list_tasks_pages_witness:
  "fetchQueue server3 queue0 =
     Some (Some \<lparr>queue_name = queue0, queue_state = 0,
                 queue_ts = [(queue0 @ ''/tasks/c'', Some \<lparr>task_state = 2, task_queue = queue0\<rparr>),
                             (queue0 @ ''/tasks/a'', Some \<lparr>task_state = 4, task_queue = queue0\<rparr>),
                             (queue0 @ ''/tasks/b'', Some \<lparr>task_state = 6, task_queue = queue0\<rparr>)]\<rparr>) \<and>
   (0::int) \<le> 2 \<and> (2::int) \<le> 1000 \<and> (3::int) < 2 ^ 63 \<and>
   ListTasks server3 \<lparr>ListTasks_Parent = queue0, PageSize = 2, PageToken = []\<rparr> =
     Inr \<lparr>Tasks = [4, 6], NextPageToken = ''2''\<rparr> \<and>
   ListTasks server3 \<lparr>ListTasks_Parent = queue0, PageSize = 2, PageToken = ''2''\<rparr> =
     Inr \<lparr>Tasks = [2], NextPageToken = []\<rparr> \<and>
   follow_pages 4 server3 queue0 2 [] = Some [4, 6, 2] \<and>
   sorted (map (\<lambda>a. Task_Name (task_heap server3 a)) [4, 6])"
proof -
  let ?q = "\<lparr>queue_name = queue0, queue_state = 0,
                 queue_ts = [(queue0 @ ''/tasks/c'', Some \<lparr>task_state = 2, task_queue = queue0\<rparr>),
                             (queue0 @ ''/tasks/a'', Some \<lparr>task_state = 4, task_queue = queue0\<rparr>),
                             (queue0 @ ''/tasks/b'', Some \<lparr>task_state = 6, task_queue = queue0\<rparr>)]\<rparr>"
  have a: "(0::int) \<le> 2" and b: "(2::int) \<le> 1000" by simp_all
  have c: "int (length (queue_ts ?q)) < 2 ^ 63" by simp
  note inst = C4_list_tasks_pages [OF server3_queue a b c]
  from inst have p0: "ListTasks server3 \<lparr>ListTasks_Parent = queue0, PageSize = 2, PageToken = []\<rparr> =
     Inr \<lparr>Tasks = [4, 6], NextPageToken = ''2''\<rparr>"
    by (elim conjE allE [where x = "0::nat"]) (simp add: server3_sorted effective_page_size_def Itoa_2)
  from inst have p2: "ListTasks server3 \<lparr>ListTasks_Parent = queue0, PageSize = 2, PageToken = ''2''\<rparr> =
     Inr \<lparr>Tasks = [2], NextPageToken = []\<rparr>"
    by (elim conjE allE [where x = "2::nat"]) (simp add: server3_sorted effective_page_size_def Itoa_2)
  from inst have "follow_pages (Suc (length (sorted_tasks server3 ?q))) server3 queue0 2 [] =
                    Some (map task_state (sorted_tasks server3 ?q))"
    by blast
  moreover have "Suc (length (sorted_tasks server3 ?q)) = 4"
    by (simp add: server3_sorted)
  moreover have "map task_state (sorted_tasks server3 ?q) = [4, 6, 2]"
    by (simp add: server3_sorted)
  ultimately have fp: "follow_pages 4 server3 queue0 2 [] = Some [4, 6, 2]"
    by (simp only:)
  from inst p0 have srt: "sorted (map (\<lambda>a. Task_Name (task_heap server3 a)) [4, 6])"
    by (elim conjE allE [where x = "\<lparr>ListTasks_Parent = queue0, PageSize = 2, PageToken = []\<rparr>"]
          allE [where x = "\<lparr>Tasks = [4, 6], NextPageToken = ''2''\<rparr>"]) simp
  from server3_queue p0 p2 fp srt show ?thesis by simp
qed

end
